theory Spec2Isabelle
  imports Main
begin

section \<open>Text\<close>

text \<open>
  The program is \<^verbatim>\<open>read_config.py\<close>: it opens the file named by its first argument as
  UTF-8 text, feeds the line \<^verbatim>\<open>[__TOP__]\<close> followed by the lines of the file to
  \<^verbatim>\<open>ConfigParser().read_file\<close> and prints
  \<^verbatim>\<open>parser.get(section, key, fallback="")\<close>.
  Everything but the argument check is done by CPython's \<^verbatim>\<open>configparser\<close> module, so the
  embedding follows \<^verbatim>\<open>RawConfigParser._read\<close>, \<^verbatim>\<open>_join_multiline_values\<close>,
  \<^verbatim>\<open>RawConfigParser.get\<close>, \<^verbatim>\<open>_unify_values\<close> and
  \<^verbatim>\<open>BasicInterpolation._interpolate_some\<close> (CPython 3.11) with the settings a bare
  \<^verbatim>\<open>ConfigParser()\<close> has: delimiters \<^verbatim>\<open>=\<close> and \<^verbatim>\<open>:\<close>, comment prefixes
  \<^verbatim>\<open>#\<close> and \<^verbatim>\<open>;\<close>, no inline comments, \<^verbatim>\<open>strict=True\<close>,
  \<^verbatim>\<open>empty_lines_in_values=True\<close>, \<^verbatim>\<open>allow_no_value=False\<close>, default section
  \<^verbatim>\<open>DEFAULT\<close>, \<^verbatim>\<open>BasicInterpolation\<close>.

  A Python \<^verbatim>\<open>str\<close> is modelled as a \<^typ>\<open>string\<close> whose characters stand for the code
  points U+0000 to U+00FF; \<open>isspace\<close> and \<open>lower\<close> are Python's on that range.
\<close>

definition LF :: char where
  "LF = CHR 0x0A"

definition CR :: char where
  "CR = CHR 0x0D"

text \<open>\<^verbatim>\<open>str.isspace\<close> on one character; also what \<^verbatim>\<open>\s\<close> matches and
  \<^verbatim>\<open>str.strip()\<close> removes.\<close>

definition isspace :: "char \<Rightarrow> bool" where
  "isspace c \<longleftrightarrow> c \<in> {CHR 0x09, CHR 0x0A, CHR 0x0B, CHR 0x0C, CHR 0x0D,
                     CHR 0x1C, CHR 0x1D, CHR 0x1E, CHR 0x1F, CHR 0x20, CHR 0x85, CHR 0xA0}"

definition lower_char :: "char \<Rightarrow> char" where
  "lower_char c =
     (let n = (of_char c :: nat)
      in if (65 \<le> n \<and> n \<le> 90) \<or> (192 \<le> n \<and> n \<le> 222 \<and> n \<noteq> 215)
         then char_of (n + 32) else c)"

definition lower :: "string \<Rightarrow> string" where
  "lower s = map lower_char s"

definition lstrip :: "string \<Rightarrow> string" where
  "lstrip s = dropWhile isspace s"

definition rstrip :: "string \<Rightarrow> string" where
  "rstrip s = rev (dropWhile isspace (rev s))"

definition strip :: "string \<Rightarrow> string" where
  "strip s = rstrip (lstrip s)"

text \<open>\<^verbatim>\<open>'\n'.join(val)\<close>\<close>

fun join_lines :: "string list \<Rightarrow> string" where
  "join_lines [] = []"
| "join_lines [v] = v"
| "join_lines (v # w # vs) = v @ LF # join_lines (w # vs)"

section \<open>The file and its lines\<close>

text \<open>
  What \<^verbatim>\<open>open(path, encoding="utf8")\<close> and the iteration over the file object give: the
  open or the decoding fails, or the decoded text is read line by line. In text mode with
  the default \<^verbatim>\<open>newline=None\<close> the terminators \<^verbatim>\<open>\n\<close>, \<^verbatim>\<open>\r\<close> and \<^verbatim>\<open>\r\n\<close> all
  end a line and are handed over as \<^verbatim>\<open>\n\<close>; the last line has no terminator when the text
  does not end in one. The decoding is lazy, so a file that is both undecodable and
  malformed may end the run with either exception; the model takes the decoding error.
\<close>

datatype file_content = NoSuchFile | Unreadable | NotUTF8 | Text string

type_synonym filesystem = "string \<Rightarrow> file_content"

datatype error =
    FileNotFoundError
  | OSError
  | UnicodeDecodeError
  | MissingSectionHeaderError string
  | DuplicateSectionError string
  | DuplicateOptionError string string
  | ParsingError "string list"
  | KeyError
  | NoSectionError string
  | InterpolationSyntaxError
  | InterpolationMissingOptionError string
  | InterpolationDepthError

definition open_file :: "filesystem \<Rightarrow> string \<Rightarrow> error + string" where
  "open_file fs path =
     (case fs path of
        NoSuchFile \<Rightarrow> Inl FileNotFoundError
      | Unreadable \<Rightarrow> Inl OSError
      | NotUTF8 \<Rightarrow> Inl UnicodeDecodeError
      | Text t \<Rightarrow> Inr t)"

text \<open>\<open>split_lines cur t\<close>: the lines of \<open>t\<close>, \<open>cur\<close> being the part of the current line
  already read.\<close>

fun split_lines :: "string \<Rightarrow> string \<Rightarrow> string list" where
  "split_lines cur [] = (if cur = [] then [] else [cur])"
| "split_lines cur (c # cs) =
     (if c = LF then (cur @ [LF]) # split_lines [] cs
      else if c = CR then
        (case cs of
           [] \<Rightarrow> [cur @ [LF]]
         | d # ds \<Rightarrow> if d = LF then (cur @ [LF]) # split_lines [] ds
                    else (cur @ [LF]) # split_lines [] cs)
      else split_lines (cur @ [c]) cs)"

definition file_lines :: "string \<Rightarrow> string list" where
  "file_lines t = split_lines [] t"

section \<open>The regular expressions of the parser\<close>

text \<open>
  Each is matched against the stripped text of one line, which holds no line terminator, so
  \<^verbatim>\<open>.\<close> matches every character of it.

  \<^verbatim>\<open>SECTCRE = \[(?P<header>.+)\]\<close>, used with \<^verbatim>\<open>match\<close>: the text starts with \<^verbatim>\<open>[\<close>, and
  the greedy \<^verbatim>\<open>.+\<close> runs to the last \<^verbatim>\<open>]\<close> of the text, which must leave it at least
  one character. What follows that \<^verbatim>\<open>]\<close> is ignored.
\<close>

definition sectcre_match :: "string \<Rightarrow> string option" where
  "sectcre_match v =
     (case v of
        [] \<Rightarrow> None
      | c # rest \<Rightarrow>
          if c \<noteq> CHR ''['' then None
          else (case dropWhile (\<lambda>x. x \<noteq> CHR '']'') (rev rest) of
                  [] \<Rightarrow> None
                | _ # h \<Rightarrow> if h = [] then None else Some (rev h)))"

text \<open>
  \<^verbatim>\<open>OPTCRE = (?P<option>.*?)\s*(?P<vi>=|:)\s*(?P<value>.*)$\<close>: the lazy \<^verbatim>\<open>.*?\<close> takes the
  shortest prefix after which only white space stands before a delimiter, which is the text
  before the first delimiter without its trailing white space; the value is the rest
  without its leading white space. No delimiter, no match.
\<close>

definition is_delim :: "char \<Rightarrow> bool" where
  "is_delim c \<longleftrightarrow> c = CHR ''='' \<or> c = CHR '':''"

definition optcre_match :: "string \<Rightarrow> (string \<times> char \<times> string) option" where
  "optcre_match v =
     (case dropWhile (\<lambda>c. \<not> is_delim c) v of
        [] \<Rightarrow> None
      | vi # rest \<Rightarrow> Some (rstrip (takeWhile (\<lambda>c. \<not> is_delim c) v), vi, lstrip rest))"

text \<open>\<^verbatim>\<open>NONSPACECRE.search(line).start()\<close>, or 0 without a match.\<close>

definition first_nonspace :: "string \<Rightarrow> nat" where
  "first_nonspace line =
     (if \<forall>c \<in> set line. isspace c then 0 else length (takeWhile isspace line))"

text \<open>
  \<^verbatim>\<open>_KEYCRE = %\(([^)]+)\)s\<close> of \<^verbatim>\<open>BasicInterpolation\<close>, matched at the start of a text:
  the name and what follows the match.
\<close>

definition keycre_match :: "string \<Rightarrow> (string \<times> string) option" where
  "keycre_match r =
     (if take 2 r \<noteq> ''%('' then None
      else let name = takeWhile (\<lambda>c. c \<noteq> CHR '')'') (drop 2 r);
               after = dropWhile (\<lambda>c. c \<noteq> CHR '')'') (drop 2 r)
           in if name \<noteq> [] \<and> take 2 after = '')s'' then Some (name, drop 2 after) else None)"

section \<open>The parser\<close>

text \<open>
  The state of \<^verbatim>\<open>_read\<close>: the parser's \<^verbatim>\<open>_sections\<close> and \<^verbatim>\<open>_defaults\<close> and the locals
  of the loop. \<^verbatim>\<open>cursect\<close> is a reference to \<^verbatim>\<open>_defaults\<close> or to
  \<^verbatim>\<open>_sections[sectname]\<close>; it is \<^verbatim>\<open>None\<close> exactly as long as \<^verbatim>\<open>sectname\<close> is, and
  \<^verbatim>\<open>DEFAULT\<close> never becomes a key of \<^verbatim>\<open>_sections\<close>, so the state names the dictionary
  by \<open>sectname\<close>. \<^verbatim>\<open>elements_added\<close> holds section names and (section, option) pairs.
  The error \<^verbatim>\<open>e\<close> collects the lines that are neither header nor option; line numbers,
  which only the diagnostics show, are left out.
\<close>

datatype element = Sect string | Opt string string

record parser_state =
  sections :: "string \<rightharpoonup> (string \<rightharpoonup> string list)"
  defaults :: "string \<rightharpoonup> string list"
  elements_added :: "element set"
  sectname :: "string option"
  optname :: "string option"
  indent_level :: nat
  e :: "string list option"

definition initial_state :: parser_state where
  "initial_state =
     \<lparr>sections = Map.empty, defaults = Map.empty, elements_added = {},
      sectname = None, optname = None, indent_level = 0, e = None\<rparr>"

definition default_section :: string where
  "default_section = ''DEFAULT''"

definition cursect :: "parser_state \<Rightarrow> (string \<rightharpoonup> string list) option" where
  "cursect st =
     (case sectname st of
        None \<Rightarrow> None
      | Some n \<Rightarrow> if n = default_section then Some (defaults st) else sections st n)"

definition set_cursect :: "parser_state \<Rightarrow> (string \<rightharpoonup> string list) \<Rightarrow> parser_state" where
  "set_cursect st d =
     (case sectname st of
        None \<Rightarrow> st
      | Some n \<Rightarrow> if n = default_section then st\<lparr>defaults := d\<rparr>
                  else st\<lparr>sections := (sections st)(n \<mapsto> d)\<rparr>)"

text \<open>The truth value of \<^verbatim>\<open>optname\<close>: neither \<^verbatim>\<open>None\<close> nor empty.\<close>

definition truthy :: "string option \<Rightarrow> bool" where
  "truthy x = (case x of None \<Rightarrow> False | Some s \<Rightarrow> s \<noteq> [])"

text \<open>\<^verbatim>\<open>cursect[optname].append(value)\<close>; a missing key raises.\<close>

definition cursect_append :: "parser_state \<Rightarrow> string \<Rightarrow> error + parser_state" where
  "cursect_append st v =
     (case (cursect st, optname st) of
        (Some d, Some k) \<Rightarrow>
          (case d k of
             None \<Rightarrow> Inl KeyError
           | Some vs \<Rightarrow> Inr (set_cursect st (d(k \<mapsto> vs @ [v]))))
      | _ \<Rightarrow> Inl KeyError)"

definition handle_error :: "parser_state \<Rightarrow> string \<Rightarrow> parser_state" where
  "handle_error st line =
     st\<lparr>e := Some ((case e st of None \<Rightarrow> [] | Some bad \<Rightarrow> bad) @ [line])\<rparr>"

definition is_comment :: "string \<Rightarrow> bool" where
  "is_comment line =
     (case strip line of [] \<Rightarrow> False | c # _ \<Rightarrow> c = CHR ''#'' \<or> c = CHR '';'')"

definition section_header :: "parser_state \<Rightarrow> string \<Rightarrow> error + parser_state" where
  "section_header st name =
     (if sections st name \<noteq> None then
        if Sect name \<in> elements_added st then Inl (DuplicateSectionError name)
        else Inr (st\<lparr>sectname := Some name,
                     elements_added := insert (Sect name) (elements_added st),
                     optname := None\<rparr>)
      else if name = default_section then
        Inr (st\<lparr>sectname := Some name, optname := None\<rparr>)
      else
        Inr (st\<lparr>sections := (sections st)(name \<mapsto> Map.empty),
                sectname := Some name,
                elements_added := insert (Sect name) (elements_added st),
                optname := None\<rparr>))"

definition option_line :: "parser_state \<Rightarrow> string \<Rightarrow> string \<Rightarrow> string \<Rightarrow> error + parser_state" where
  "option_line st line v sect =
     (case optcre_match v of
        None \<Rightarrow> Inr (handle_error st line)
      | Some (oname, vi, optval) \<Rightarrow>
          let st1 = (if oname = [] then handle_error st line else st);
              name = lower (rstrip oname)
          in if Opt sect name \<in> elements_added st1 then Inl (DuplicateOptionError sect name)
             else
               (case cursect st1 of
                  None \<Rightarrow> Inl KeyError
                | Some d \<Rightarrow>
                    Inr (set_cursect
                          (st1\<lparr>optname := Some name,
                               elements_added := insert (Opt sect name) (elements_added st1)\<rparr>)
                          (d(name \<mapsto> [strip optval])))))"

text \<open>One turn of the loop over the lines.\<close>

definition read_line :: "parser_state \<Rightarrow> string \<Rightarrow> error + parser_state" where
  "read_line st line =
     (let v = (if is_comment line then [] else strip line)
      in if v = [] then
           (if \<not> is_comment line \<and> sectname st \<noteq> None \<and> truthy (optname st)
            then cursect_append st []
            else Inr st)
         else
           let cur_indent_level = first_nonspace line
           in if sectname st \<noteq> None \<and> truthy (optname st) \<and> cur_indent_level > indent_level st
              then cursect_append st v
              else
                let st1 = st\<lparr>indent_level := cur_indent_level\<rparr>
                in (case sectcre_match v of
                      Some name \<Rightarrow> section_header st1 name
                    | None \<Rightarrow>
                        (case sectname st1 of
                           None \<Rightarrow> Inl (MissingSectionHeaderError line)
                         | Some sect \<Rightarrow> option_line st1 line v sect)))"

fun read_lines :: "parser_state \<Rightarrow> string list \<Rightarrow> error + parser_state" where
  "read_lines st [] = Inr st"
| "read_lines st (l # ls) =
     (case read_line st l of Inl err \<Rightarrow> Inl err | Inr st' \<Rightarrow> read_lines st' ls)"

text \<open>
  The parsed document, after \<^verbatim>\<open>_join_multiline_values\<close>: every list of lines joined with
  \<^verbatim>\<open>\n\<close> and stripped on the right (\<^verbatim>\<open>before_read\<close> changes nothing).
\<close>

record config =
  c_sections :: "string \<rightharpoonup> (string \<rightharpoonup> string)"
  c_defaults :: "string \<rightharpoonup> string"

definition join_value :: "string list \<Rightarrow> string" where
  "join_value val = rstrip (join_lines val)"

definition join_multiline_values :: "parser_state \<Rightarrow> config" where
  "join_multiline_values st =
     \<lparr>c_sections = (\<lambda>s. map_option (\<lambda>d k. map_option join_value (d k)) (sections st s)),
      c_defaults = (\<lambda>k. map_option join_value (defaults st k))\<rparr>"

text \<open>
  \<^verbatim>\<open>read_file\<close> on a new parser. The \<^verbatim>\<open>finally\<close> clause joins the values on every
  path, but an exception leaves \<^verbatim>\<open>_read\<close> with the parser never used again, so only the
  successful path returns a document.
\<close>

definition read_file :: "string list \<Rightarrow> error + config" where
  "read_file ls =
     (case read_lines initial_state ls of
        Inl err \<Rightarrow> Inl err
      | Inr st \<Rightarrow>
          (case e st of
             Some bad \<Rightarrow> Inl (ParsingError bad)
           | None \<Rightarrow> Inr (join_multiline_values st)))"

section \<open>Looking a value up\<close>

text \<open>
  \<^verbatim>\<open>_unify_values(section, None)\<close>: the chain of the section's dictionary over the
  defaults. A section that is missing raises, unless it is the default section.
\<close>

definition unify_values :: "config \<Rightarrow> string \<Rightarrow> error + (string \<rightharpoonup> string)" where
  "unify_values cfg section =
     (case c_sections cfg section of
        Some sectiondict \<Rightarrow> Inr (c_defaults cfg ++ sectiondict)
      | None \<Rightarrow>
          if section \<noteq> default_section then Inl (NoSectionError section)
          else Inr (c_defaults cfg ++ Map.empty))"

definition max_interpolation_depth :: nat where
  "max_interpolation_depth = 10"

text \<open>
  \<^verbatim>\<open>BasicInterpolation._interpolate_some\<close>, the \<^verbatim>\<open>while rest\<close> loop unrolled into the
  recursion: \<open>m\<close> is the chain the option was found in, \<open>accum\<close> the pieces appended so
  far. The depth does not change inside the loop, so testing it at every turn is testing it
  on entry. (\<^verbatim>\<open>rawval\<close> only feeds the messages of the exceptions.)
\<close>

function interpolate_some ::
  "(string \<rightharpoonup> string) \<Rightarrow> string list \<Rightarrow> string \<Rightarrow> nat \<Rightarrow> error + string list" where
  "interpolate_some m accum rest depth =
     (if depth > max_interpolation_depth then Inl InterpolationDepthError
      else if rest = [] then Inr accum
      else if CHR ''%'' \<notin> set rest then Inr (accum @ [rest])
      else
        let pre = takeWhile (\<lambda>c. c \<noteq> CHR ''%'') rest;
            accum1 = (if pre \<noteq> [] then accum @ [pre] else accum);
            rest1 = dropWhile (\<lambda>c. c \<noteq> CHR ''%'') rest;
            c = take 1 (drop 1 rest1)
        in if c = ''%'' then interpolate_some m (accum1 @ [''%'']) (drop 2 rest1) depth
           else if c = ''('' then
             (case keycre_match rest1 of
                None \<Rightarrow> Inl InterpolationSyntaxError
              | Some (name, rest2) \<Rightarrow>
                  (case m (lower name) of
                     None \<Rightarrow> Inl (InterpolationMissingOptionError (lower name))
                   | Some v \<Rightarrow>
                       if CHR ''%'' \<in> set v then
                         (case interpolate_some m accum1 v (depth + 1) of
                            Inl err \<Rightarrow> Inl err
                          | Inr accum2 \<Rightarrow> interpolate_some m accum2 rest2 depth)
                       else interpolate_some m (accum1 @ [v]) rest2 depth))
           else Inl InterpolationSyntaxError)"
  by pat_completeness auto
termination
proof -
  have gen: "length r' < length r" if "keycre_match r = Some (n, r')" for r n r'
  proof -
    from that have r2: "take 2 r = ''%(''"
      and r': "r' = drop 2 (dropWhile (\<lambda>c. c \<noteq> CHR '')'') (drop 2 r))"
      by (auto simp: keycre_match_def Let_def split: if_splits)
    from r2 have "r \<noteq> []" by auto
    moreover have "length r' \<le> length (drop 2 r)"
      unfolding r' using length_dropWhile_le [of "\<lambda>c. c \<noteq> CHR '')''" "drop 2 r"] by simp
    ultimately show ?thesis by (cases r) auto
  qed
  have shorter: "length r' < length rest"
    if "keycre_match (dropWhile P rest) = Some (n, r')" for P rest n r'
    using gen [OF that] length_dropWhile_le [of P rest] by simp
  have drop2: "length (dropWhile P rest) - 2 < length rest" if "rest \<noteq> []" for P and rest :: string
    using that length_dropWhile_le [of P rest] by (cases rest) auto
  show ?thesis
    by (relation "measures [\<lambda>(m, accum, rest, depth). Suc max_interpolation_depth - depth,
                            \<lambda>(m, accum, rest, depth). length rest]")
       (auto simp: drop2 dest: shorter)
qed

declare interpolate_some.simps [simp del]

text \<open>\<^verbatim>\<open>BasicInterpolation.before_get\<close>\<close>

definition before_get :: "(string \<rightharpoonup> string) \<Rightarrow> string \<Rightarrow> error + string" where
  "before_get m v =
     (case interpolate_some m [] v 1 of
        Inl err \<Rightarrow> Inl err
      | Inr L \<Rightarrow> Inr (concat L))"

text \<open>
  \<^verbatim>\<open>get(section, option, fallback=...)\<close> with \<^verbatim>\<open>raw=False\<close> and no \<^verbatim>\<open>vars\<close>: a missing
  section or option gives the fallback; a value that is found goes through the
  interpolation, whose exceptions nothing catches.
\<close>

definition get :: "config \<Rightarrow> string \<Rightarrow> string \<Rightarrow> string \<Rightarrow> error + string" where
  "get cfg section opt fallback =
     (case unify_values cfg section of
        Inl err \<Rightarrow> Inr fallback
      | Inr d \<Rightarrow>
          (case d (lower opt) of
             None \<Rightarrow> Inr fallback
           | Some v \<Rightarrow> before_get d v))"

section \<open>The program\<close>

text \<open>
  What a run leaves behind: it ends through \<^verbatim>\<open>sys.exit\<close> or the end of the script, with
  what it wrote to standard output and standard error and its exit status, or an exception
  nobody caught ends it, the interpreter writes the traceback to standard error and the
  status is 1. \<^verbatim>\<open>sys.exit(-1)\<close> is kept as \<open>-1\<close> (255 for a POSIX parent).
\<close>

datatype outcome = Exited string string int | Uncaught error

fun stdout_of :: "outcome \<Rightarrow> string" where
  "stdout_of (Exited out err status) = out"
| "stdout_of (Uncaught err) = []"

fun exit_status :: "outcome \<Rightarrow> int" where
  "exit_status (Exited out err status) = status"
| "exit_status (Uncaught err) = 1"

definition top_header :: string where
  "top_header = ''[__TOP__]''"

text \<open>\<open>argv\<close> is \<^verbatim>\<open>sys.argv\<close>: the script's name, then the arguments.\<close>

definition main :: "string list \<Rightarrow> filesystem \<Rightarrow> outcome" where
  "main argv fs =
     (if length argv < 4 then Exited [] (''Missing arguments'' @ [LF]) (- 1)
      else
        (case open_file fs (argv ! 1) of
           Inl err \<Rightarrow> Uncaught err
         | Inr config_file \<Rightarrow>
             (case read_file (top_header # file_lines config_file) of
                Inl err \<Rightarrow> Uncaught err
              | Inr parser \<Rightarrow>
                  (case get parser (argv ! 2) (argv ! 3) [] of
                     Inl err \<Rightarrow> Uncaught err
                   | Inr v \<Rightarrow> Exited (v @ [LF]) [] 0))))"

section \<open>The vocabulary of the specification\<close>

text \<open>
  The specification speaks of a valid file, of the sections it contains and of the value
  stored under a key. These are read off the document the parser builds from the text of
  the file, behind the synthetic header: a file is valid when \<open>read_file\<close> raises nothing;
  the value stored under a key of a section is the entry of that section's dictionary, and
  for the default section, which the parser keeps apart, the entry of the defaults.
\<close>

definition parse :: "string \<Rightarrow> error + config" where
  "parse t = read_file (top_header # file_lines t)"

definition valid_file :: "string \<Rightarrow> bool" where
  "valid_file t = (case parse t of Inl err \<Rightarrow> False | Inr cfg \<Rightarrow> True)"

definition section_present :: "string \<Rightarrow> string \<Rightarrow> bool" where
  "section_present t S =
     (case parse t of Inl err \<Rightarrow> False | Inr cfg \<Rightarrow> c_sections cfg S \<noteq> None)"

definition stored_value :: "string \<Rightarrow> string \<Rightarrow> string \<Rightarrow> string option" where
  "stored_value t S K =
     (case parse t of
        Inl err \<Rightarrow> None
      | Inr cfg \<Rightarrow>
          (case c_sections cfg S of
             Some d \<Rightarrow> d K
           | None \<Rightarrow> if S = default_section then c_defaults cfg K else None))"

definition default_value :: "string \<Rightarrow> string \<Rightarrow> string option" where
  "default_value t K = (case parse t of Inl err \<Rightarrow> None | Inr cfg \<Rightarrow> c_defaults cfg K)"

text \<open>
  The assignments of a file: \<open>assigns st line\<close> is the section and the key that the
  parser, in state \<open>st\<close>, reads \<open>line\<close> as an assignment to (the line is no comment,
  not blank, no continuation of a value and no section header, and \<^verbatim>\<open>OPTCRE\<close> matches
  it); \<open>assignments\<close> collects them along the lines the parser reaches.
\<close>

definition assigns :: "parser_state \<Rightarrow> string \<Rightarrow> (string \<times> string) option" where
  "assigns st line =
     (let v = (if is_comment line then [] else strip line)
      in if v = [] then None
         else if sectname st \<noteq> None \<and> truthy (optname st) \<and>
                 first_nonspace line > indent_level st then None
         else if sectcre_match v \<noteq> None then None
         else (case (sectname st, optcre_match v) of
                 (Some sect, Some (oname, vi, optval)) \<Rightarrow> Some (sect, lower (rstrip oname))
               | _ \<Rightarrow> None))"

fun assignments :: "parser_state \<Rightarrow> string list \<Rightarrow> (string \<times> string) list" where
  "assignments st [] = []"
| "assignments st (l # ls) =
     (case assigns st l of None \<Rightarrow> [] | Some a \<Rightarrow> [a]) @
     (case read_line st l of Inl err \<Rightarrow> [] | Inr st' \<Rightarrow> assignments st' ls)"

definition file_assignments :: "string \<Rightarrow> (string \<times> string) list" where
  "file_assignments t = assignments initial_state (top_header # file_lines t)"

text \<open>
  The file read as it is, without the synthetic header, to compare with: \<open>lookup\<close> is
  \<^verbatim>\<open>read_file\<close> on the given lines followed by \<^verbatim>\<open>get\<close>, and \<open>outcome_of\<close> what the
  program makes of its result. A file begins with a section header when its first line that
  is neither blank nor a comment is one. \<open>with_top\<close> adds the empty synthetic section to a
  state of the parser.
\<close>

definition top_name :: string where
  "top_name = ''__TOP__''"

definition lookup :: "string list \<Rightarrow> string \<Rightarrow> string \<Rightarrow> error + string" where
  "lookup ls S K = (case read_file ls of Inl err \<Rightarrow> Inl err | Inr cfg \<Rightarrow> get cfg S K [])"

fun begins_with_header :: "string list \<Rightarrow> bool" where
  "begins_with_header [] = False"
| "begins_with_header (l # ls) =
     (if is_comment l \<or> strip l = [] then begins_with_header ls
      else sectcre_match (strip l) \<noteq> None)"

definition no_top_header :: "string list \<Rightarrow> bool" where
  "no_top_header ls = list_all (\<lambda>l. sectcre_match (strip l) \<noteq> Some top_name) ls"

definition with_top :: "parser_state \<Rightarrow> parser_state" where
  "with_top st =
     st\<lparr>sections := (sections st)(top_name \<mapsto> Map.empty),
        elements_added := insert (Sect top_name) (elements_added st)\<rparr>"

definition in_section :: "parser_state \<Rightarrow> bool" where
  "in_section st \<longleftrightarrow>
     sections st top_name = None \<and> (\<exists>n. sectname st = Some n \<and> n \<noteq> top_name)"

definition before_sections :: "parser_state \<Rightarrow> bool" where
  "before_sections st \<longleftrightarrow>
     sections st top_name = None \<and> sectname st = None \<and> optname st = None"

definition outcome_of :: "error + string \<Rightarrow> outcome" where
  "outcome_of r = (case r of Inl err \<Rightarrow> Uncaught err | Inr v \<Rightarrow> Exited (v @ [LF]) [] 0)"

text \<open>
  The first assignment of a file: the first line that is neither blank nor a comment, when
  it is no section header and \<^verbatim>\<open>OPTCRE\<close> matches it, with the key as written, the
  stripped value, the indentation of the line and the lines after it. Its value is not
  continued when the next line that is neither blank nor a comment is not indented deeper.
\<close>

definition key_value_line :: "string \<Rightarrow> (string \<times> string) option" where
  "key_value_line l =
     (if is_comment l \<or> strip l = [] \<or> sectcre_match (strip l) \<noteq> None then None
      else (case optcre_match (strip l) of
              None \<Rightarrow> None
            | Some (oname, vi, optval) \<Rightarrow> Some (oname, strip optval)))"

fun first_assignment :: "string list \<Rightarrow> (string \<times> string \<times> nat \<times> string list) option" where
  "first_assignment [] = None"
| "first_assignment (l # ls) =
     (if is_comment l \<or> strip l = [] then first_assignment ls
      else (case key_value_line l of
              None \<Rightarrow> None
            | Some (k, v) \<Rightarrow> Some (k, v, first_nonspace l, ls)))"

fun not_continued :: "nat \<Rightarrow> string list \<Rightarrow> bool" where
  "not_continued i [] = True"
| "not_continued i (l # ls) =
     (if is_comment l \<or> strip l = [] then not_continued i ls else first_nonspace l \<le> i)"

text \<open>The value of key \<open>k\<close> of the synthetic section is settled as \<open>v\<close>.\<close>

definition settled :: "string \<Rightarrow> string \<Rightarrow> parser_state \<Rightarrow> bool" where
  "settled k v st \<longleftrightarrow>
     (\<exists>d vs. sections st top_name = Some d \<and> d k = Some vs \<and> vs \<noteq> [] \<and> join_value vs = v) \<and>
     Opt top_name k \<in> elements_added st \<and> Sect top_name \<in> elements_added st"

definition collecting :: "string \<Rightarrow> parser_state \<Rightarrow> bool" where
  "collecting k st \<longleftrightarrow> sectname st = Some top_name \<and> optname st = Some k"

text \<open>Once another header or option has been read, the value stays as it is.\<close>

definition done_with :: "string \<Rightarrow> string \<Rightarrow> parser_state \<Rightarrow> bool" where
  "done_with k v st \<longleftrightarrow> e st \<noteq> None \<or> (settled k v st \<and> \<not> collecting k st)"

text \<open>Behind the synthetic header, up to the first assignment of the file.\<close>

definition at_top :: "parser_state \<Rightarrow> bool" where
  "at_top st \<longleftrightarrow>
     sections st top_name = Some Map.empty \<and> sectname st = Some top_name \<and>
     optname st = None \<and> elements_added st = {Sect top_name}"

text \<open>Every key of the dictionaries is in lower case: the invariant behind the lookup.\<close>

definition keys_lower :: "parser_state \<Rightarrow> bool" where
  "keys_lower st \<longleftrightarrow>
     (\<forall>s d k v. sections st s = Some d \<longrightarrow> d k = Some v \<longrightarrow> lower k = k) \<and>
     (\<forall>k v. defaults st k = Some v \<longrightarrow> lower k = k)"

definition config_keys_lower :: "config \<Rightarrow> bool" where
  "config_keys_lower cfg \<longleftrightarrow>
     (\<forall>s d k v. c_sections cfg s = Some d \<longrightarrow> d k = Some v \<longrightarrow> lower k = k) \<and>
     (\<forall>k v. c_defaults cfg k = Some v \<longrightarrow> lower k = k)"

section \<open>Lower case\<close>

lemma lower_char_idem: "lower_char (lower_char c) = lower_char c"
proof -
  let ?n = "of_char c :: nat"
  show ?thesis
  proof (cases "(65 \<le> ?n \<and> ?n \<le> 90) \<or> (192 \<le> ?n \<and> ?n \<le> 222 \<and> ?n \<noteq> 215)")
    case True
    then have l: "lower_char c = char_of (?n + 32)" by (simp add: lower_char_def Let_def)
    from True have "(?n + 32) mod 256 = ?n + 32" by auto
    then have "(of_char (char_of (?n + 32) :: char) :: nat) = ?n + 32"
      by (simp only: of_char_of)
    with True show ?thesis unfolding l by (auto simp add: lower_char_def Let_def)
  next
    case False
    then have "lower_char c = c" unfolding lower_char_def Let_def by (simp only: if_False)
    then show ?thesis by simp
  qed
qed

lemma lower_idem: "lower (lower s) = lower s"
  by (simp add: lower_def lower_char_idem)

section \<open>One line of the parser\<close>

text \<open>A line that raises nothing is skipped, appended to the value of the current option,
  read as a section header or read as an option.\<close>

lemma read_line_cases:
  assumes "read_line st line = Inr st'"
  obtains (skip) "st' = st"
  | (append) v where "cursect_append st v = Inr st'" "sectname st \<noteq> None" "truthy (optname st)"
  | (header) name where "sectcre_match (strip line) = Some name"
      "section_header (st\<lparr>indent_level := first_nonspace line\<rparr>) name = Inr st'"
  | (option) sect where "sectname st = Some sect"
      "option_line (st\<lparr>indent_level := first_nonspace line\<rparr>) line (strip line) sect = Inr st'"
proof -
  let ?v = "if is_comment line then [] else strip line"
  let ?st1 = "st\<lparr>indent_level := first_nonspace line\<rparr>"
  show thesis
  proof (cases "?v = []")
    case True
    with assms have "cursect_append st [] = Inr st' \<and> sectname st \<noteq> None \<and> truthy (optname st)
        \<or> st' = st"
      by (simp add: read_line_def split: if_splits)
    then show thesis using append skip by blast
  next
    case False
    show thesis
    proof (cases "sectname st \<noteq> None \<and> truthy (optname st) \<and>
                  first_nonspace line > indent_level st")
      case True
      with False assms have "cursect_append st ?v = Inr st'"
        by (simp add: read_line_def split: if_splits)
      with True show thesis using append by blast
    next
      case notcont: False
      show thesis
      proof (cases "sectcre_match ?v")
        case (Some name)
        with False notcont assms have "section_header ?st1 name = Inr st'"
          by (simp add: read_line_def Let_def split: if_splits)
        moreover from False Some have "sectcre_match (strip line) = Some name"
          by (simp split: if_splits)
        ultimately show thesis by (rule header [rotated])
      next
        case None
        with False notcont assms obtain sect where "sectname st = Some sect"
          "option_line ?st1 line ?v sect = Inr st'"
          by (cases "sectname st") (simp_all add: read_line_def Let_def split: if_splits)
        moreover from False have "?v = strip line" by (simp split: if_splits)
        ultimately show thesis using option by simp
      qed
    qed
  qed
qed

lemma cursect_fields:
  "cursect (st\<lparr>indent_level := i\<rparr>) = cursect st"
  "cursect (st\<lparr>optname := on\<rparr>) = cursect st"
  "cursect (st\<lparr>elements_added := ea\<rparr>) = cursect st"
  "cursect (st\<lparr>e := err\<rparr>) = cursect st"
  by (simp_all add: cursect_def split: option.splits)

section \<open>The keys are in lower case\<close>

lemma keys_lower_fields:
  "keys_lower (st\<lparr>indent_level := i\<rparr>) = keys_lower st"
  "keys_lower (st\<lparr>optname := on\<rparr>) = keys_lower st"
  "keys_lower (st\<lparr>elements_added := ea\<rparr>) = keys_lower st"
  "keys_lower (st\<lparr>sectname := sn\<rparr>) = keys_lower st"
  "keys_lower (st\<lparr>e := err\<rparr>) = keys_lower st"
  by (simp_all add: keys_lower_def)

lemma keys_lower_cursect:
  "keys_lower st \<Longrightarrow> cursect st = Some d \<Longrightarrow> d k = Some v \<Longrightarrow> lower k = k"
  by (auto simp: keys_lower_def cursect_def split: option.splits if_splits)

lemma keys_lower_set_cursect:
  assumes "keys_lower st" "cursect st = Some d" "lower k = k"
  shows "keys_lower (set_cursect st (d(k \<mapsto> v)))"
  using assms
  by (auto simp: keys_lower_def cursect_def set_cursect_def split: option.splits if_splits)

lemma keys_lower_cursect_append:
  "keys_lower st \<Longrightarrow> cursect_append st v = Inr st' \<Longrightarrow> keys_lower st'"
  by (auto simp: cursect_append_def split: option.splits
           intro!: keys_lower_set_cursect dest: keys_lower_cursect)

lemma keys_lower_section_header:
  "keys_lower st \<Longrightarrow> section_header st name = Inr st' \<Longrightarrow> keys_lower st'"
  by (auto simp: section_header_def keys_lower_def split: if_splits)

lemma keys_lower_option_line:
  assumes "keys_lower st" "option_line st line v sect = Inr st'"
  shows "keys_lower st'"
proof (cases "optcre_match v")
  case None
  with assms show ?thesis by (auto simp: option_line_def handle_error_def keys_lower_fields)
next
  case (Some m)
  obtain oname vi optval where m: "m = (oname, vi, optval)" by (cases m)
  define st1 where "st1 = (if oname = [] then handle_error st line else st)"
  have k1: "keys_lower st1" using assms(1)
    by (simp add: st1_def handle_error_def keys_lower_fields)
  from assms(2) Some m obtain d where d: "cursect st1 = Some d"
    and st': "st' = set_cursect
       (st1\<lparr>optname := Some (lower (rstrip oname)),
            elements_added := insert (Opt sect (lower (rstrip oname))) (elements_added st1)\<rparr>)
       (d(lower (rstrip oname) \<mapsto> [strip optval]))"
    by (auto simp: option_line_def Let_def st1_def split: if_splits option.splits)
  show ?thesis unfolding st'
    by (rule keys_lower_set_cursect) (simp_all add: keys_lower_fields cursect_fields k1 d lower_idem)
qed

lemma keys_lower_read_line:
  assumes "keys_lower st" "read_line st line = Inr st'"
  shows "keys_lower st'"
  using assms(2)
proof (cases rule: read_line_cases)
  case skip
  with assms(1) show ?thesis by simp
next
  case (append v)
  with assms(1) show ?thesis by (auto dest: keys_lower_cursect_append)
next
  case (header name)
  then show ?thesis
    using keys_lower_section_header [of "st\<lparr>indent_level := first_nonspace line\<rparr>" name st']
      assms(1)
    by (simp add: keys_lower_fields)
next
  case (option sect)
  then show ?thesis
    using keys_lower_option_line
      [of "st\<lparr>indent_level := first_nonspace line\<rparr>" line "strip line" sect st'] assms(1)
    by (simp add: keys_lower_fields)
qed

lemma keys_lower_read_lines:
  "keys_lower st \<Longrightarrow> read_lines st ls = Inr st' \<Longrightarrow> keys_lower st'"
  by (induction ls arbitrary: st) (auto split: sum.splits dest: keys_lower_read_line)

lemma keys_lower_initial: "keys_lower initial_state"
  by (simp add: keys_lower_def initial_state_def)

lemma read_file_keys_lower:
  assumes "read_file ls = Inr cfg"
  shows "config_keys_lower cfg"
proof -
  from assms obtain st where st: "read_lines initial_state ls = Inr st"
    and cfg: "cfg = join_multiline_values st"
    by (auto simp: read_file_def split: sum.splits option.splits)
  from st have "keys_lower st" by (rule keys_lower_read_lines [OF keys_lower_initial])
  then show ?thesis unfolding cfg
    by (auto simp: keys_lower_def config_keys_lower_def join_multiline_values_def)
qed

section \<open>Lookup\<close>

lemma interpolate_some_plain:
  "CHR ''%'' \<notin> set v \<Longrightarrow> depth \<le> max_interpolation_depth \<Longrightarrow>
     interpolate_some m accum v depth = Inr (if v = [] then accum else accum @ [v])"
  by (subst interpolate_some.simps) simp

lemma before_get_plain: "CHR ''%'' \<notin> set v \<Longrightarrow> before_get m v = Inr v"
  by (simp add: before_get_def interpolate_some_plain max_interpolation_depth_def)

lemma main_run:
  assumes "fs path = Text t" "parse t = Inr cfg"
  shows "main [prog, path, S, K] fs =
           (case get cfg S K [] of Inl err \<Rightarrow> Uncaught err | Inr v \<Rightarrow> Exited (v @ [LF]) [] 0)"
  using assms by (simp add: main_def open_file_def parse_def)

section \<open>Assignments and the elements added\<close>

lemma elements_added_handle_error: "elements_added (handle_error st line) = elements_added st"
  by (simp add: handle_error_def)

lemma elements_added_set_cursect: "elements_added (set_cursect st d) = elements_added st"
  by (simp add: set_cursect_def split: option.splits)

lemma assigns_read_line:
  assumes "assigns st line = Some (s, k)"
  shows "read_line st line =
           option_line (st\<lparr>indent_level := first_nonspace line\<rparr>) line (strip line) s"
    and "sectname st = Some s"
    and "\<exists>oname vi optval.
           optcre_match (strip line) = Some (oname, vi, optval) \<and> k = lower (rstrip oname)"
  using assms
  by (auto simp: assigns_def read_line_def Let_def split: if_splits option.splits)

lemma assigns_duplicate:
  assumes "assigns st line = Some (s, k)" "Opt s k \<in> elements_added st"
  shows "read_line st line = Inl (DuplicateOptionError s k)"
proof -
  from assigns_read_line(3) [OF assms(1)] obtain oname vi optval
    where m: "optcre_match (strip line) = Some (oname, vi, optval)"
      and k: "k = lower (rstrip oname)"
    by blast
  show ?thesis
    unfolding assigns_read_line(1) [OF assms(1)]
    using m k assms(2) by (auto simp: option_line_def Let_def elements_added_handle_error)
qed

lemma assigns_recorded:
  assumes "assigns st line = Some (s, k)" "read_line st line = Inr st'"
  shows "Opt s k \<in> elements_added st'"
proof -
  from assigns_read_line(3) [OF assms(1)] obtain oname vi optval
    where m: "optcre_match (strip line) = Some (oname, vi, optval)"
      and k: "k = lower (rstrip oname)"
    by blast
  from assms(2) show ?thesis
    unfolding assigns_read_line(1) [OF assms(1)]
    using m k
    by (auto simp: option_line_def Let_def elements_added_set_cursect
             split: if_splits option.splits)
qed

lemma elements_added_mono:
  assumes "read_line st line = Inr st'"
  shows "elements_added st \<subseteq> elements_added st'"
  using assms
proof (cases rule: read_line_cases)
  case skip
  then show ?thesis by simp
next
  case (append v)
  then show ?thesis
    by (auto simp: cursect_append_def elements_added_set_cursect split: option.splits)
next
  case (header name)
  then show ?thesis by (auto simp: section_header_def split: if_splits)
next
  case (option sect)
  then show ?thesis
    by (auto simp: option_line_def Let_def elements_added_set_cursect elements_added_handle_error
             split: if_splits option.splits prod.splits)
qed

text \<open>An assignment to a key already added to the section, or two assignments to one key of
  one section further on, and the parser raises \<^verbatim>\<open>DuplicateOptionError\<close>.\<close>

lemma repeated_assignment_raises:
  assumes "(\<exists>a \<in> set (assignments st ls). Opt (fst a) (snd a) \<in> elements_added st) \<or>
           \<not> distinct (assignments st ls)"
  shows "\<exists>s k. read_lines st ls = Inl (DuplicateOptionError s k)"
  using assms
proof (induction ls arbitrary: st)
  case Nil
  then show ?case by simp
next
  case (Cons l ls)
  show ?case
  proof (cases "read_line st l")
    case (Inl err)
    show ?thesis
    proof (cases "assigns st l")
      case None
      with Inl Cons.prems show ?thesis by simp
    next
      case (Some a)
      obtain s k where a: "a = (s, k)" by (cases a)
      from Cons.prems Inl Some a have "Opt s k \<in> elements_added st" by simp
      with Some a have "read_line st l = Inl (DuplicateOptionError s k)"
        by (simp add: assigns_duplicate)
      then show ?thesis by simp
    qed
  next
    case (Inr st')
    then have mono: "elements_added st \<subseteq> elements_added st'" by (rule elements_added_mono)
    have "(\<exists>a \<in> set (assignments st' ls). Opt (fst a) (snd a) \<in> elements_added st') \<or>
           \<not> distinct (assignments st' ls)"
    proof (cases "assigns st l")
      case None
      with Inr Cons.prems mono show ?thesis by auto
    next
      case (Some a)
      obtain s k where a: "a = (s, k)" by (cases a)
      with Some Inr have rec: "Opt s k \<in> elements_added st'" by (simp add: assigns_recorded)
      from Some a Inr have fresh: "Opt s k \<notin> elements_added st"
        using assigns_duplicate [of st l s k] by auto
      from Cons.prems Some a Inr fresh
      have "(\<exists>b \<in> set (assignments st' ls). Opt (fst b) (snd b) \<in> elements_added st) \<or>
            (s, k) \<in> set (assignments st' ls) \<or> \<not> distinct (assignments st' ls)"
        by auto
      then show ?thesis
      proof (elim disjE)
        assume "\<exists>b \<in> set (assignments st' ls). Opt (fst b) (snd b) \<in> elements_added st"
        with mono show ?thesis by blast
      next
        assume "(s, k) \<in> set (assignments st' ls)"
        with rec have "\<exists>b \<in> set (assignments st' ls). Opt (fst b) (snd b) \<in> elements_added st'"
          by force
        then show ?thesis ..
      next
        assume "\<not> distinct (assignments st' ls)"
        then show ?thesis ..
      qed
    qed
    then have "\<exists>s k. read_lines st' ls = Inl (DuplicateOptionError s k)" by (rule Cons.IH)
    with Inr show ?thesis by simp
  qed
qed

section \<open>The synthetic section beside the sections of the file\<close>

lemma top_not_default: "top_name \<noteq> default_section"
  by (simp add: top_name_def default_section_def)

lemma with_top_fields:
  "with_top (st\<lparr>indent_level := i\<rparr>) = (with_top st)\<lparr>indent_level := i\<rparr>"
  "with_top (st\<lparr>optname := on\<rparr>) = (with_top st)\<lparr>optname := on\<rparr>"
  "with_top (st\<lparr>sectname := sn\<rparr>) = (with_top st)\<lparr>sectname := sn\<rparr>"
  "with_top (st\<lparr>e := err\<rparr>) = (with_top st)\<lparr>e := err\<rparr>"
  "with_top (st\<lparr>defaults := d\<rparr>) = (with_top st)\<lparr>defaults := d\<rparr>"
  by (simp_all add: with_top_def)

lemma with_top_sel:
  "sectname (with_top st) = sectname st"
  "optname (with_top st) = optname st"
  "indent_level (with_top st) = indent_level st"
  "e (with_top st) = e st"
  "defaults (with_top st) = defaults st"
  "elements_added (with_top st) = insert (Sect top_name) (elements_added st)"
  "sections (with_top st) = (sections st)(top_name \<mapsto> Map.empty)"
  by (simp_all add: with_top_def)

lemma with_top_handle_error: "handle_error (with_top st) line = with_top (handle_error st line)"
  by (simp add: handle_error_def with_top_def)

lemma cursect_with_top:
  "sectname st = Some n \<Longrightarrow> n \<noteq> top_name \<Longrightarrow> cursect (with_top st) = cursect st"
  by (simp add: cursect_def with_top_def)

lemma set_cursect_with_top:
  "sectname st = Some n \<Longrightarrow> n \<noteq> top_name \<Longrightarrow>
     set_cursect (with_top st) d = with_top (set_cursect st d)"
  by (simp add: set_cursect_def with_top_def fun_upd_twist)

lemma cursect_append_with_top:
  assumes "sectname st = Some n" "n \<noteq> top_name"
  shows "cursect_append (with_top st) v = map_sum id with_top (cursect_append st v)"
  using assms
  by (simp add: cursect_append_def cursect_with_top [OF assms] set_cursect_with_top [OF assms]
        with_top_sel split: option.splits)

lemma section_header_with_top:
  assumes "name \<noteq> top_name"
  shows "section_header (with_top st) name = map_sum id with_top (section_header st name)"
  using assms
  by (auto simp: section_header_def with_top_def fun_upd_twist insert_commute)

lemma option_line_with_top:
  assumes "sectname st = Some n" "n \<noteq> top_name"
  shows "option_line (with_top st) line v sect = map_sum id with_top (option_line st line v sect)"
proof (cases "optcre_match v")
  case None
  then show ?thesis by (simp add: option_line_def with_top_handle_error)
next
  case (Some m)
  obtain oname vi optval where m: "m = (oname, vi, optval)" by (cases m)
  define st1 where "st1 = (if oname = [] then handle_error st line else st)"
  have s1: "sectname st1 = Some n" using assms(1) by (simp add: st1_def handle_error_def)
  have w1: "(if oname = [] then handle_error (with_top st) line else with_top st) = with_top st1"
    by (simp add: st1_def with_top_handle_error)
  let ?k = "lower (rstrip oname)"
  let ?st2 = "st1\<lparr>optname := Some ?k, elements_added := insert (Opt sect ?k) (elements_added st1)\<rparr>"
  have s2: "sectname ?st2 = Some n" using s1 by simp
  have w2: "(with_top st1)\<lparr>optname := Some ?k,
              elements_added := insert (Opt sect ?k) (elements_added (with_top st1))\<rparr> = with_top ?st2"
    by (simp add: with_top_def insert_commute)
  have "option_line (with_top st) line v sect =
      (if Opt sect ?k \<in> elements_added (with_top st1) then Inl (DuplicateOptionError sect ?k)
       else case cursect (with_top st1) of None \<Rightarrow> Inl KeyError
            | Some d \<Rightarrow> Inr (set_cursect (with_top ?st2) (d(?k \<mapsto> [strip optval]))))"
    unfolding option_line_def Some m by (simp only: option.case prod.case Let_def w1 w2)
  also have "\<dots> = map_sum id with_top
      (if Opt sect ?k \<in> elements_added st1 then Inl (DuplicateOptionError sect ?k)
       else case cursect st1 of None \<Rightarrow> Inl KeyError
            | Some d \<Rightarrow> Inr (set_cursect ?st2 (d(?k \<mapsto> [strip optval]))))"
    by (simp add: cursect_with_top [OF s1 assms(2)] set_cursect_with_top [OF s2 assms(2)]
          with_top_sel split: option.splits)
  also have "\<dots> = map_sum id with_top (option_line st line v sect)"
    unfolding option_line_def Some m by (simp only: option.case prod.case Let_def st1_def)
  finally show ?thesis .
qed

lemma read_line_unfold:
  "read_line st line =
     (if is_comment line \<or> strip line = [] then
        (if \<not> is_comment line \<and> sectname st \<noteq> None \<and> truthy (optname st)
         then cursect_append st [] else Inr st)
      else if sectname st \<noteq> None \<and> truthy (optname st) \<and>
              first_nonspace line > indent_level st
      then cursect_append st (strip line)
      else (case sectcre_match (strip line) of
              Some name \<Rightarrow> section_header (st\<lparr>indent_level := first_nonspace line\<rparr>) name
            | None \<Rightarrow>
                (case sectname st of
                   None \<Rightarrow> Inl (MissingSectionHeaderError line)
                 | Some sect \<Rightarrow>
                     option_line (st\<lparr>indent_level := first_nonspace line\<rparr>) line
                       (strip line) sect)))"
  by (auto simp: read_line_def Let_def split: option.splits)

lemma read_line_with_top:
  assumes "sectname st = Some n" "n \<noteq> top_name"
    and "sectcre_match (strip line) \<noteq> Some top_name"
  shows "read_line (with_top st) line = map_sum id with_top (read_line st line)"
proof -
  let ?i = "first_nonspace line"
  have s1: "sectname (st\<lparr>indent_level := ?i\<rparr>) = Some n" using assms(1) by simp
  note ca = cursect_append_with_top [OF assms(1,2)]
  show ?thesis
  proof (cases "sectcre_match (strip line)")
    case None
    from option_line_with_top [OF s1 assms(2), of line "strip line" n]
    show ?thesis using None assms(1)
      by (simp add: read_line_unfold with_top_sel with_top_fields ca)
  next
    case (Some name)
    with assms(3) have "name \<noteq> top_name" by auto
    from section_header_with_top [OF this, of "st\<lparr>indent_level := ?i\<rparr>"]
    show ?thesis using Some assms(1)
      by (simp add: read_line_unfold with_top_sel with_top_fields ca)
  qed
qed

lemma sections_set_cursect_other:
  "sectname st = Some n \<Longrightarrow> n \<noteq> m \<Longrightarrow> sections (set_cursect st d) m = sections st m"
  by (simp add: set_cursect_def)

lemma sectname_set_cursect: "sectname (set_cursect st d) = sectname st"
  by (simp add: set_cursect_def split: option.splits)

lemma in_section_read_line:
  assumes "in_section st" "read_line st line = Inr st'"
    and "sectcre_match (strip line) \<noteq> Some top_name"
  shows "in_section st'"
proof -
  from assms(1) obtain n where n: "sectname st = Some n" "n \<noteq> top_name"
    and t: "sections st top_name = None"
    by (auto simp: in_section_def)
  from assms(2) show ?thesis
  proof (cases rule: read_line_cases)
    case skip
    with assms(1) show ?thesis by simp
  next
    case (append v)
    then show ?thesis using n t
      by (auto simp: cursect_append_def in_section_def sections_set_cursect_other
            sectname_set_cursect split: option.splits)
  next
    case (header name)
    with assms(3) have "name \<noteq> top_name" by auto
    with header(2) t show ?thesis
      by (auto simp: section_header_def in_section_def split: if_splits)
  next
    case (option sect)
    then show ?thesis using n t
      by (auto simp: option_line_def Let_def in_section_def handle_error_def
            sections_set_cursect_other sectname_set_cursect
            split: option.splits if_splits prod.splits)
  qed
qed

lemma read_lines_with_top:
  assumes "in_section st" "no_top_header ls"
  shows "read_lines (with_top st) ls = map_sum id with_top (read_lines st ls)"
  using assms
proof (induction ls arbitrary: st)
  case Nil
  then show ?case by simp
next
  case (Cons l ls)
  from Cons.prems obtain n where n: "sectname st = Some n" "n \<noteq> top_name"
    by (auto simp: in_section_def)
  from Cons.prems have l: "sectcre_match (strip l) \<noteq> Some top_name" and ls: "no_top_header ls"
    by (simp_all add: no_top_header_def)
  have step: "read_line (with_top st) l = map_sum id with_top (read_line st l)"
    using n l by (rule read_line_with_top)
  show ?case
  proof (cases "read_line st l")
    case (Inl err)
    with step show ?thesis by simp
  next
    case (Inr st')
    with Cons.prems(1) l have "in_section st'" by (auto intro: in_section_read_line)
    with Cons.IH ls have "read_lines (with_top st') ls = map_sum id with_top (read_lines st' ls)"
      by blast
    with step Inr show ?thesis by (simp add: id_def)
  qed
qed

text \<open>Before the first header of the file the synthetic section is the current one.\<close>

lemma read_lines_before_sections:
  assumes "before_sections st" "begins_with_header ls" "no_top_header ls"
  shows "read_lines ((with_top st)\<lparr>sectname := Some top_name\<rparr>) ls =
           map_sum id with_top (read_lines st ls)"
  using assms
proof (induction ls)
  case Nil
  then show ?case by simp
next
  case (Cons l ls)
  let ?st' = "(with_top st)\<lparr>sectname := Some top_name\<rparr>"
  from Cons.prems(1) have b: "sections st top_name = None" "sectname st = None" "optname st = None"
    by (simp_all add: before_sections_def)
  from Cons.prems(3) have l: "sectcre_match (strip l) \<noteq> Some top_name" and ls: "no_top_header ls"
    by (simp_all add: no_top_header_def)
  show ?case
  proof (cases "is_comment l \<or> strip l = []")
    case True
    then have "read_line st l = Inr st" "read_line ?st' l = Inr ?st'"
      using b by (auto simp: read_line_def truthy_def with_top_sel)
    moreover from True Cons.prems(2) have "begins_with_header ls" by simp
    ultimately show ?thesis using Cons.IH Cons.prems(1) ls by simp
  next
    case False
    with Cons.prems(2) obtain name where name: "sectcre_match (strip l) = Some name"
      by auto
    with l have nt: "name \<noteq> top_name" by auto
    let ?i = "first_nonspace l"
    have p: "read_line st l = section_header (st\<lparr>indent_level := ?i\<rparr>) name"
      using False name b by (simp add: read_line_def Let_def truthy_def)
    have q: "read_line ?st' l = section_header (?st'\<lparr>indent_level := ?i\<rparr>) name"
      using False name b by (simp add: read_line_def Let_def truthy_def with_top_sel)
    have r: "section_header (?st'\<lparr>indent_level := ?i\<rparr>) name =
             map_sum id with_top (section_header (st\<lparr>indent_level := ?i\<rparr>) name)"
      using nt b by (auto simp: section_header_def with_top_def fun_upd_twist insert_commute)
    have qr: "read_line ?st' l = map_sum id with_top (read_line st l)"
      by (simp only: p q r)
    show ?thesis
    proof (cases "read_line st l")
      case (Inl err)
      with qr show ?thesis by simp
    next
      case (Inr st1)
      with p nt b have "in_section st1"
        by (auto simp: section_header_def in_section_def split: if_splits)
      then have "read_lines (with_top st1) ls = map_sum id with_top (read_lines st1 ls)"
        using ls by (rule read_lines_with_top)
      with qr Inr show ?thesis by (simp add: id_def)
    qed
  qed
qed

lemma read_line_top_header:
  "read_line initial_state top_header = Inr ((with_top initial_state)\<lparr>sectname := Some top_name\<rparr>)"
proof -
  have "strip top_header = top_header" "\<not> is_comment top_header"
    "sectcre_match top_header = Some top_name" "first_nonspace top_header = 0"
    by code_simp+
  then show ?thesis
    by (simp add: read_line_def Let_def initial_state_def section_header_def with_top_def
          top_not_default top_header_def)
qed

lemma read_lines_top_header:
  assumes "begins_with_header ls" "no_top_header ls"
  shows "read_lines initial_state (top_header # ls) =
           map_sum id with_top (read_lines initial_state ls)"
proof -
  have "before_sections initial_state" by (simp add: before_sections_def initial_state_def)
  from read_lines_before_sections [OF this assms] show ?thesis
    by (simp add: read_line_top_header)
qed

lemma main_lookup:
  "fs path = Text t \<Longrightarrow>
     main [prog, path, S, K] fs = outcome_of (lookup (top_header # file_lines t) S K)"
  by (simp add: main_def open_file_def lookup_def outcome_of_def split: sum.splits)

lemma join_with_top:
  "join_multiline_values (with_top st) =
     (join_multiline_values st)
       \<lparr>c_sections := (c_sections (join_multiline_values st))(top_name \<mapsto> Map.empty)\<rparr>"
  by (auto simp: join_multiline_values_def with_top_def)

lemma read_file_top_header:
  assumes "begins_with_header ls" "no_top_header ls"
  shows "read_file (top_header # ls) =
           map_sum id (\<lambda>cfg. cfg\<lparr>c_sections := (c_sections cfg)(top_name \<mapsto> Map.empty)\<rparr>)
             (read_file ls)"
  unfolding read_file_def read_lines_top_header [OF assms]
  by (cases "read_lines initial_state ls")
     (simp_all add: with_top_sel join_with_top split: option.splits)

lemma get_other_section:
  "S \<noteq> n \<Longrightarrow> get (cfg\<lparr>c_sections := (c_sections cfg)(n \<mapsto> d)\<rparr>) S K fb = get cfg S K fb"
proof -
  assume "S \<noteq> n"
  then have "unify_values (cfg\<lparr>c_sections := (c_sections cfg)(n \<mapsto> d)\<rparr>) S = unify_values cfg S"
    by (simp add: unify_values_def split: option.splits)
  then show ?thesis by (simp add: get_def)
qed


section \<open>The first assignment of a file without header\<close>

lemma rstrip_rstrip: "rstrip (rstrip s) = rstrip s"
  by (simp add: rstrip_def)

lemma rstrip_strip: "rstrip (strip s) = strip s"
  by (simp add: strip_def rstrip_rstrip)

lemma rstrip_append_LF: "rstrip (s @ [LF]) = rstrip s"
  by (simp add: rstrip_def isspace_def LF_def)

lemma join_lines_snoc_empty: "vs \<noteq> [] \<Longrightarrow> join_lines (vs @ [[]]) = join_lines vs @ [LF]"
  by (induction vs rule: join_lines.induct) simp_all

lemma join_value_snoc_empty: "vs \<noteq> [] \<Longrightarrow> join_value (vs @ [[]]) = join_value vs"
  by (simp add: join_value_def join_lines_snoc_empty rstrip_append_LF)

lemma join_value_single: "join_value [strip x] = strip x"
  by (simp add: join_value_def rstrip_strip)

lemma settled_fields:
  "settled k v (st\<lparr>indent_level := i\<rparr>) = settled k v st"
  "settled k v (st\<lparr>optname := on\<rparr>) = settled k v st"
  "settled k v (st\<lparr>sectname := sn\<rparr>) = settled k v st"
  "settled k v (st\<lparr>e := err\<rparr>) = settled k v st"
  "settled k v (st\<lparr>defaults := df\<rparr>) = settled k v st"
  by (simp_all add: settled_def)

lemma settled_set_cursect:
  assumes "settled k v st" "cursect st = Some d0"
    and "sectname st = Some top_name \<Longrightarrow> k0 \<noteq> k"
  shows "settled k v (set_cursect st (d0(k0 \<mapsto> x)))"
proof -
  from assms(2) obtain n where n: "sectname st = Some n"
    by (auto simp: cursect_def split: option.splits)
  show ?thesis
  proof (cases "n = top_name")
    case True
    with n assms show ?thesis
      by (auto simp: settled_def cursect_def set_cursect_def top_not_default)
  next
    case False
    with n assms(1) show ?thesis
      by (auto simp: settled_def set_cursect_def)
  qed
qed

lemma collecting_set_cursect: "collecting k (set_cursect st d) = collecting k st"
  by (simp add: collecting_def set_cursect_def split: option.splits)

lemma settled_section_header:
  assumes "settled k v st" "section_header st name = Inr st'"
  shows "settled k v st' \<and> \<not> collecting k st'"
proof -
  from assms(1) have "sections st top_name \<noteq> None" "Sect top_name \<in> elements_added st"
    by (auto simp: settled_def)
  with assms(2) have "name \<noteq> top_name"
    by (auto simp: section_header_def split: if_splits)
  with assms show ?thesis
    by (auto simp: section_header_def settled_def collecting_def split: if_splits)
qed

lemma settled_option_line:
  assumes "settled k v st" "sectname st = Some sect" "option_line st l x sect = Inr st'"
  shows "e st' \<noteq> None \<or> (settled k v st' \<and> \<not> collecting k st')"
proof (cases "optcre_match x")
  case None
  with assms(3) have "e st' \<noteq> None"
    by (auto simp: option_line_def handle_error_def)
  then show ?thesis ..
next
  case (Some m)
  obtain oname vi optval where m: "m = (oname, vi, optval)" by (cases m)
  define st1 where "st1 = (if oname = [] then handle_error st l else st)"
  let ?n = "lower (rstrip oname)"
  let ?st2 = "st1\<lparr>optname := Some ?n, elements_added := insert (Opt sect ?n) (elements_added st1)\<rparr>"
  have s1: "settled k v st1" "sectname st1 = Some sect" "elements_added st1 = elements_added st"
    using assms(1,2) by (simp_all add: st1_def handle_error_def settled_fields)
  from assms(3) Some m obtain d0 where d0: "cursect st1 = Some d0"
    and fresh: "Opt sect ?n \<notin> elements_added st1"
    and st': "st' = set_cursect ?st2 (d0(?n \<mapsto> [strip optval]))"
    by (auto simp: option_line_def Let_def st1_def split: if_splits option.splits)
  from assms(1) have "Opt top_name k \<in> elements_added st" by (simp add: settled_def)
  with fresh s1(3) have ne: "sect = top_name \<Longrightarrow> ?n \<noteq> k" by auto
  have "settled k v ?st2" using s1(1) by (auto simp: settled_def)
  moreover have "cursect ?st2 = Some d0" using d0 by (simp add: cursect_fields)
  moreover have "sectname ?st2 = Some top_name \<Longrightarrow> ?n \<noteq> k" using s1(2) ne by simp
  ultimately have "settled k v st'" unfolding st' by (rule settled_set_cursect)
  moreover have "\<not> collecting k st'"
    unfolding st' collecting_set_cursect using s1(2) ne by (auto simp: collecting_def)
  ultimately show ?thesis by simp
qed


lemma e_set_cursect: "e (set_cursect st d) = e st"
  by (simp add: set_cursect_def split: option.splits)

lemma e_stays:
  assumes "read_line st l = Inr st'" "e st \<noteq> None"
  shows "e st' \<noteq> None"
  using assms(1)
proof (cases rule: read_line_cases)
  case skip
  with assms(2) show ?thesis by simp
next
  case (append v)
  with assms(2) show ?thesis
    by (auto simp: cursect_append_def e_set_cursect split: option.splits)
next
  case (header name)
  with assms(2) show ?thesis by (auto simp: section_header_def split: if_splits)
next
  case (option sect)
  with assms(2) show ?thesis
    by (auto simp: option_line_def Let_def e_set_cursect handle_error_def
             split: if_splits option.splits prod.splits)
qed

lemma settled_cursect_append:
  assumes "settled k v st" "\<not> collecting k st" "cursect_append st x = Inr st'"
  shows "settled k v st' \<and> \<not> collecting k st'"
proof -
  from assms(3) obtain d0 k0 vs where c: "cursect st = Some d0" and o: "optname st = Some k0"
    and st': "st' = set_cursect st (d0(k0 \<mapsto> vs @ [x]))"
    by (auto simp: cursect_append_def split: option.splits)
  from assms(2) o have "sectname st = Some top_name \<Longrightarrow> k0 \<noteq> k" by (auto simp: collecting_def)
  with assms(1) c have "settled k v st'" unfolding st' by (rule settled_set_cursect)
  with assms(2) show ?thesis by (simp add: st' collecting_set_cursect)
qed

lemma done_with_read_line:
  assumes "done_with k v st" "read_line st l = Inr st'"
  shows "done_with k v st'"
proof (cases "e st \<noteq> None")
  case True
  with assms(2) show ?thesis by (auto simp: done_with_def dest: e_stays)
next
  case False
  with assms(1) have s: "settled k v st" and nc: "\<not> collecting k st"
    by (auto simp: done_with_def)
  from assms(2) show ?thesis
  proof (cases rule: read_line_cases)
    case skip
    with assms(1) show ?thesis by simp
  next
    case (append x)
    with s nc show ?thesis by (auto simp: done_with_def dest: settled_cursect_append)
  next
    case (header name)
    with s show ?thesis
      using settled_section_header [of k v "st\<lparr>indent_level := first_nonspace l\<rparr>" name st']
      by (simp add: done_with_def settled_fields)
  next
    case (option sect)
    with s show ?thesis
      using settled_option_line
        [of k v "st\<lparr>indent_level := first_nonspace l\<rparr>" sect l "strip l" st']
      by (simp add: done_with_def settled_fields)
  qed
qed

lemma done_with_read_lines:
  "done_with k v st \<Longrightarrow> read_lines st ls = Inr st' \<Longrightarrow> done_with k v st'"
  by (induction ls arbitrary: st) (auto split: sum.splits dest: done_with_read_line)

lemma collecting_blank:
  assumes "settled k v st" "collecting k st" "is_comment l \<or> strip l = []"
    and "read_line st l = Inr st'"
  shows "settled k v st' \<and> collecting k st' \<and> indent_level st' = indent_level st"
proof (cases "st' = st")
  case True
  with assms show ?thesis by simp
next
  case False
  with assms(3,4) have ap: "cursect_append st [] = Inr st'"
    by (auto simp: read_line_unfold split: if_splits)
  from assms(1,2) obtain d vs where d: "cursect st = Some d" "d k = Some vs" "vs \<noteq> []"
    "join_value vs = v"
    by (auto simp: settled_def collecting_def cursect_def top_not_default)
  with ap assms(2) have st': "st' = set_cursect st (d(k \<mapsto> vs @ [[]]))"
    by (auto simp: cursect_append_def collecting_def)
  have "settled k v st'"
    using assms(1,2) d unfolding st'
    by (auto simp: settled_def collecting_def cursect_def set_cursect_def top_not_default
          join_value_snoc_empty)
  moreover have "indent_level st' = indent_level st"
    unfolding st' by (simp add: set_cursect_def split: option.splits)
  ultimately show ?thesis using assms(2) by (simp add: st' collecting_set_cursect)
qed

lemma collecting_next:
  assumes "settled k v st" "collecting k st" "\<not> (is_comment l \<or> strip l = [])"
    and "first_nonspace l \<le> indent_level st" "read_line st l = Inr st'"
  shows "done_with k v st'"
proof -
  let ?st1 = "st\<lparr>indent_level := first_nonspace l\<rparr>"
  have s1: "settled k v ?st1" using assms(1) by (simp add: settled_fields)
  from assms(2) have sn: "sectname st = Some top_name" by (simp add: collecting_def)
  show ?thesis
  proof (cases "sectcre_match (strip l)")
    case (Some name)
    with assms(3,4,5) have "section_header ?st1 name = Inr st'"
      by (simp add: read_line_unfold)
    with s1 show ?thesis by (auto simp: done_with_def dest: settled_section_header)
  next
    case None
    with assms(3,4,5) sn have "option_line ?st1 l (strip l) top_name = Inr st'"
      by (simp add: read_line_unfold)
    with s1 sn show ?thesis
      using settled_option_line [of k v ?st1 top_name l "strip l" st']
      by (simp add: done_with_def)
  qed
qed

lemma collecting_read_lines:
  assumes "settled k v st" "collecting k st" "not_continued (indent_level st) ls"
    and "read_lines st ls = Inr st'"
  shows "e st' \<noteq> None \<or> settled k v st'"
  using assms
proof (induction ls arbitrary: st)
  case Nil
  then show ?case by simp
next
  case (Cons l ls)
  from Cons.prems(4) obtain st1 where st1: "read_line st l = Inr st1"
    and rest: "read_lines st1 ls = Inr st'"
    by (auto split: sum.splits)
  show ?case
  proof (cases "is_comment l \<or> strip l = []")
    case True
    with Cons.prems(1,2) st1
    have "settled k v st1 \<and> collecting k st1 \<and> indent_level st1 = indent_level st"
      by (intro collecting_blank)
    moreover from True Cons.prems(3) have "not_continued (indent_level st) ls" by simp
    ultimately show ?thesis using Cons.IH [of st1] rest by simp
  next
    case False
    with Cons.prems(3) have "first_nonspace l \<le> indent_level st" by simp
    with Cons.prems(1,2) False st1 have "done_with k v st1" by (intro collecting_next)
    with rest have "done_with k v st'" by (auto dest: done_with_read_lines)
    then show ?thesis by (auto simp: done_with_def)
  qed
qed

lemma optcre_match_rstrip:
  "optcre_match x = Some (oname, vi, optval) \<Longrightarrow> rstrip oname = oname"
  by (auto simp: optcre_match_def rstrip_rstrip split: list.splits)

lemma first_assignment_read_lines:
  assumes "at_top st" "first_assignment ls = Some (k, v, i, rest)"
    and "read_lines st ls = Inr st'"
  shows "\<exists>st1. settled (lower k) v st1 \<and> collecting (lower k) st1 \<and> indent_level st1 = i \<and>
           read_lines st1 rest = Inr st'"
  using assms
proof (induction ls arbitrary: st)
  case Nil
  then show ?case by simp
next
  case (Cons l ls)
  from Cons.prems(1) have a: "sections st top_name = Some Map.empty" "sectname st = Some top_name"
    "optname st = None" "elements_added st = {Sect top_name}"
    by (simp_all add: at_top_def)
  show ?case
  proof (cases "is_comment l \<or> strip l = []")
    case True
    with a have "read_line st l = Inr st" by (auto simp: read_line_unfold truthy_def)
    with Cons.prems True Cons.IH [of st] show ?thesis by simp
  next
    case False
    with Cons.prems(2) obtain vi optval where
      kv: "sectcre_match (strip l) = None" "optcre_match (strip l) = Some (k, vi, optval)"
        "v = strip optval" "i = first_nonspace l" "rest = ls"
      by (auto simp: key_value_line_def split: if_splits option.splits)
    let ?st0 = "st\<lparr>indent_level := i\<rparr>"
    let ?st1 = "if k = [] then handle_error ?st0 l else ?st0"
    let ?st2 = "set_cursect
        (?st1\<lparr>optname := Some (lower k),
             elements_added := insert (Opt top_name (lower k)) (elements_added ?st1)\<rparr>)
        (Map.empty(lower k \<mapsto> [v]))"
    have rn: "rstrip [] = []" by (simp add: rstrip_def)
    have rl: "read_line st l = Inr ?st2"
      using False kv a optcre_match_rstrip [OF kv(2)]
      by (auto simp: read_line_unfold truthy_def option_line_def Let_def cursect_def
            top_not_default handle_error_def rn)
    have "settled (lower k) v ?st2"
      using a kv(3)
      by (simp add: settled_def set_cursect_def top_not_default handle_error_def join_value_single)
    moreover have "collecting (lower k) ?st2"
      using a by (simp add: collecting_def set_cursect_def top_not_default handle_error_def)
    moreover have "indent_level ?st2 = i"
      using a by (simp add: set_cursect_def top_not_default handle_error_def)
    moreover from Cons.prems(3) rl kv(5) have "read_lines ?st2 rest = Inr st'" by simp
    ultimately show ?thesis by blast
  qed
qed

lemma at_top_start: "at_top ((with_top initial_state)\<lparr>sectname := Some top_name\<rparr>)"
  by (simp add: at_top_def with_top_def initial_state_def)

lemma get_stored:
  assumes "c_sections cfg S = Some d" "d (lower K) = Some V" "CHR ''%'' \<notin> set V"
  shows "get cfg S K fb = Inr V"
  using assms by (simp add: get_def unify_values_def before_get_plain)


section \<open>The lines handed to the regular expressions\<close>

text \<open>A line of the file, once stripped, holds no line terminator: the premise under which
  the regular expressions were read.\<close>

lemma set_strip_subset: "set (strip s) \<subseteq> set s"
proof -
  have "set (rstrip x) \<subseteq> set x" for x
    using set_dropWhileD [of _ isspace "rev x"] by (auto simp: rstrip_def)
  moreover have "set (lstrip s) \<subseteq> set s"
    by (auto simp: lstrip_def dest: set_dropWhileD)
  ultimately show ?thesis unfolding strip_def by blast
qed

lemma strip_append_LF: "strip (b @ [LF]) = strip b"
proof (cases "\<forall>c \<in> set b. isspace c")
  case True
  then have "lstrip (b @ [LF]) = []" "lstrip b = []"
    by (simp_all add: lstrip_def isspace_def LF_def)
  then show ?thesis by (simp add: strip_def)
next
  case False
  then have "lstrip (b @ [LF]) = lstrip b @ [LF]"
    by (auto simp: lstrip_def)
  then show ?thesis by (simp add: strip_def rstrip_append_LF)
qed

lemma split_lines_shape:
  assumes "l \<in> set (split_lines cur t)" "LF \<notin> set cur" "CR \<notin> set cur"
  shows "\<exists>b. (l = b \<or> l = b @ [LF]) \<and> LF \<notin> set b \<and> CR \<notin> set b"
  using assms
proof (induction cur t rule: split_lines.induct)
  case (1 cur)
  then show ?case by (auto split: if_splits)
next
  case (2 cur c cs)
  show ?case
  proof (cases "c = LF")
    case True
    with "2.prems" have "l = cur @ [LF] \<or> l \<in> set (split_lines [] cs)" by simp
    then show ?thesis
    proof
      assume "l = cur @ [LF]"
      with "2.prems" show ?thesis by blast
    next
      assume "l \<in> set (split_lines [] cs)"
      with "2.IH"(1) [OF True] show ?thesis by simp
    qed
  next
    case nlf: False
    show ?thesis
    proof (cases "c = CR")
      case True
      show ?thesis
      proof (cases cs)
        case Nil
        with nlf True "2.prems" show ?thesis by auto
      next
        case (Cons d ds)
        show ?thesis
        proof (cases "d = LF")
          case dl: True
          with nlf True Cons "2.prems"
          have "l = cur @ [LF] \<or> l \<in> set (split_lines [] ds)" by simp
          then show ?thesis
          proof
            assume "l = cur @ [LF]"
            with "2.prems" show ?thesis by blast
          next
            assume "l \<in> set (split_lines [] ds)"
            with "2.IH"(2) [OF nlf True Cons dl] show ?thesis by simp
          qed
        next
          case dn: False
          with nlf True Cons "2.prems"
          have "l = cur @ [LF] \<or> l \<in> set (split_lines [] cs)" by simp
          then show ?thesis
          proof
            assume "l = cur @ [LF]"
            with "2.prems" show ?thesis by blast
          next
            assume "l \<in> set (split_lines [] cs)"
            with "2.IH"(3) [OF nlf True Cons dn] show ?thesis by simp
          qed
        qed
      qed
    next
      case False
      with nlf "2.prems" have "l \<in> set (split_lines (cur @ [c]) cs)" by simp
      with "2.IH"(4) [OF nlf False] nlf False "2.prems" show ?thesis by simp
    qed
  qed
qed

lemma file_lines_stripped:
  assumes "l \<in> set (file_lines t)"
  shows "LF \<notin> set (strip l) \<and> CR \<notin> set (strip l)"
proof -
  from assms obtain b where b: "l = b \<or> l = b @ [LF]" "LF \<notin> set b" "CR \<notin> set b"
    using split_lines_shape [of l "[]" t] by (auto simp: file_lines_def)
  then have "strip l = strip b" by (auto simp: strip_append_LF)
  with b set_strip_subset [of b] show ?thesis by auto
qed

section \<open>Malformed files\<close>

lemma read_lines_append:
  "read_lines st (xs @ ys) =
     (case read_lines st xs of Inl err \<Rightarrow> Inl err | Inr st' \<Rightarrow> read_lines st' ys)"
  by (induction xs arbitrary: st) (auto split: sum.splits)

lemma e_stays_lines:
  "read_lines st ls = Inr st' \<Longrightarrow> e st \<noteq> None \<Longrightarrow> e st' \<noteq> None"
  by (induction ls arbitrary: st) (auto split: sum.splits dest: e_stays)

text \<open>A line that is neither comment, continuation, header nor option makes the file
  invalid, whatever follows it.\<close>

lemma malformed_line_is_fatal:
  assumes "read_lines initial_state (top_header # pre) = Inr st"
    and "\<not> is_comment l" "strip l \<noteq> []"
    and "\<not> (truthy (optname st) \<and> first_nonspace l > indent_level st)"
    and "sectcre_match (strip l) = None" "optcre_match (strip l) = None"
  shows "\<exists>err. read_file (top_header # pre @ l # post) = Inl err"
proof (cases "read_lines st (l # post)")
  case (Inl err)
  with assms(1) read_lines_append [of initial_state "top_header # pre" "l # post"]
  show ?thesis by (simp add: read_file_def)
next
  case (Inr st')
  then obtain st1 where st1: "read_line st l = Inr st1" and rest: "read_lines st1 post = Inr st'"
    by (auto split: sum.splits)
  from st1 assms(2-6) have "e st1 \<noteq> None"
    by (auto simp: read_line_unfold option_line_def handle_error_def split: option.splits)
  with rest have "e st' \<noteq> None" by (rule e_stays_lines)
  with Inr assms(1) read_lines_append [of initial_state "top_header # pre" "l # post"]
  show ?thesis by (auto simp: read_file_def)
qed

text \<open>A second header for a section of the same file raises at once.\<close>

lemma duplicate_header_is_fatal:
  assumes "read_lines initial_state (top_header # pre) = Inr st"
    and "\<not> is_comment l" "strip l \<noteq> []"
    and "\<not> (sectname st \<noteq> None \<and> truthy (optname st) \<and> first_nonspace l > indent_level st)"
    and "sectcre_match (strip l) = Some name"
    and "sections st name \<noteq> None" "Sect name \<in> elements_added st"
  shows "read_file (top_header # pre @ l # post) = Inl (DuplicateSectionError name)"
proof -
  from assms(2-7) have "read_line st l = Inl (DuplicateSectionError name)"
    by (auto simp: read_line_unfold section_header_def)
  with assms(1) read_lines_append [of initial_state "top_header # pre" "l # post"]
  show ?thesis by (simp add: read_file_def)
qed

section \<open>The claims\<close>

text \<open>
  C1. As stated (for every valid file with section S, key K and stored value V the
  program prints V and a newline and exits with 0) the claim fails: the value goes through
  the interpolation of \<^verbatim>\<open>ConfigParser\<close>, and a stored \<^verbatim>\<open>50%\<close> raises instead of being
  printed.
\<close>

theorem stored_value_printed_counterexample:
  "valid_file ''[s]\<newline>k = 50%\<newline>'' \<and>
   stored_value ''[s]\<newline>k = 50%\<newline>'' ''s'' (lower ''k'') = Some ''50%'' \<and>
   main [''read_config.py'', ''app.ini'', ''s'', ''k''] (\<lambda>p. Text ''[s]\<newline>k = 50%\<newline>'')
     = Uncaught InterpolationSyntaxError"
  by code_simp

text \<open>
  C1, amended: for every valid file that stores the value V under key K of section S (the
  parser stores keys in lower case, so under K in lower case, however K is written in the
  file or in the query), V holding no percent sign, the program called with the file, S
  and K writes exactly V and a newline to standard output, nothing to standard error, and
  exits with status 0.
\<close>

theorem stored_value_printed:
  assumes "fs path = Text t"
    and "stored_value t S (lower K) = Some V"
    and "CHR ''%'' \<notin> set V"
  shows "main [prog, path, S, K] fs = Exited (V @ [LF]) [] 0"
proof -
  from assms(2) obtain cfg where cfg: "parse t = Inr cfg"
    by (auto simp: stored_value_def split: sum.splits)
  have "get cfg S K [] = Inr V"
  proof (cases "c_sections cfg S")
    case (Some d)
    with assms(2) cfg have "d (lower K) = Some V" by (simp add: stored_value_def)
    with Some assms(3) show ?thesis
      by (simp add: get_def unify_values_def before_get_plain)
  next
    case None
    with assms(2) cfg have "S = default_section" and "c_defaults cfg (lower K) = Some V"
      by (auto simp: stored_value_def split: if_splits)
    with None assms(3) show ?thesis
      by (simp add: get_def unify_values_def before_get_plain)
  qed
  with main_run [of fs path t cfg prog S K] assms(1) cfg show ?thesis by simp
qed

theorem stored_value_printed_witness:
  "stored_value ''[db]\<newline>Host = localhost\<newline>port = 5432'' ''db'' (lower ''Host'') =
     Some ''localhost'' \<and>
   CHR ''%'' \<notin> set ''localhost'' \<and>
   main [''read_config.py'', ''app.ini'', ''db'', ''Host'']
     (\<lambda>p. Text ''[db]\<newline>Host = localhost\<newline>port = 5432'') = Exited (''localhost'' @ [LF]) [] 0"
proof -
  have h: "stored_value ''[db]\<newline>Host = localhost\<newline>port = 5432'' ''db'' (lower ''Host'') =
      Some ''localhost''"
    by code_simp
  show ?thesis
    using h stored_value_printed
      [where fs = "\<lambda>p. Text ''[db]\<newline>Host = localhost\<newline>port = 5432''"
         and path = "''app.ini''" and t = "''[db]\<newline>Host = localhost\<newline>port = 5432''"
         and S = "''db''" and K = "''Host''" and V = "''localhost''" and prog = "''read_config.py''"]
    by simp
qed

text \<open>
  C2. As stated (a key absent from a section that is present gives the empty string) the
  claim fails: \<^verbatim>\<open>get\<close> looks the key up in the section and then in the defaults, so a
  key of \<^verbatim>\<open>[DEFAULT]\<close> is found through every section that is present.
\<close>

theorem absent_key_counterexample:
  "valid_file ''[DEFAULT]\<newline>k = v\<newline>[s]\<newline>a = 1\<newline>'' \<and>
   section_present ''[DEFAULT]\<newline>k = v\<newline>[s]\<newline>a = 1\<newline>'' ''s'' \<and>
   stored_value ''[DEFAULT]\<newline>k = v\<newline>[s]\<newline>a = 1\<newline>'' ''s'' ''k'' = None \<and>
   main [''read_config.py'', ''app.ini'', ''s'', ''k'']
     (\<lambda>p. Text ''[DEFAULT]\<newline>k = v\<newline>[s]\<newline>a = 1\<newline>'') = Exited ''v\<newline>'' [] 0"
  by code_simp

text \<open>
  C2, amended: for every valid file, if the requested section is absent and is not the
  default section, or the requested key in lower case is stored neither in the requested
  section nor in the default section, the program writes an empty line to standard output
  and exits with status 0.
\<close>

theorem absent_gives_fallback:
  assumes "fs path = Text t"
    and "valid_file t"
    and "(\<not> section_present t S \<and> S \<noteq> default_section) \<or>
         (stored_value t S (lower K) = None \<and> default_value t (lower K) = None)"
  shows "main [prog, path, S, K] fs = Exited [LF] [] 0"
proof -
  from assms(2) obtain cfg where cfg: "parse t = Inr cfg"
    by (auto simp: valid_file_def split: sum.splits)
  from assms(3) cfg have "get cfg S K [] = Inr []"
    by (auto simp: get_def unify_values_def section_present_def stored_value_def default_value_def
             map_add_def split: option.splits if_splits)
  with main_run [of fs path t cfg prog S K] assms(1) cfg show ?thesis by simp
qed

theorem absent_gives_fallback_witness:
  "valid_file ''[db]\<newline>host = localhost\<newline>port = 5432'' \<and>
   \<not> section_present ''[db]\<newline>host = localhost\<newline>port = 5432'' ''nope'' \<and>
   ''nope'' \<noteq> default_section \<and>
   main [''read_config.py'', ''app.ini'', ''nope'', ''host'']
     (\<lambda>p. Text ''[db]\<newline>host = localhost\<newline>port = 5432'') = Exited [LF] [] 0"
proof -
  have h: "valid_file ''[db]\<newline>host = localhost\<newline>port = 5432''"
    "\<not> section_present ''[db]\<newline>host = localhost\<newline>port = 5432'' ''nope''"
    "''nope'' \<noteq> default_section"
    by code_simp+
  show ?thesis
    using h absent_gives_fallback
      [where fs = "\<lambda>p. Text ''[db]\<newline>host = localhost\<newline>port = 5432''"
         and path = "''app.ini''" and t = "''[db]\<newline>host = localhost\<newline>port = 5432''"
         and S = "''nope''" and K = "''host''" and prog = "''read_config.py''"]
    by simp
qed

text \<open>
  C3. As stated (for every file whose first non-blank line is an assignment, the query of
  that key under \<^verbatim>\<open>__TOP__\<close> yields the value) the claim fails: the value still goes
  through the interpolation, and the rest of the file must parse.
\<close>

theorem first_assignment_under_top_counterexample:
  "first_assignment (file_lines ''ratio = 100%\<newline>'') = Some (''ratio'', ''100%'', 0, []) \<and>
   valid_file ''ratio = 100%\<newline>'' \<and>
   main [''read_config.py'', ''app.ini'', ''__TOP__'', ''ratio''] (\<lambda>p. Text ''ratio = 100%\<newline>'')
     = Uncaught InterpolationSyntaxError"
  by code_simp

text \<open>
  C3, amended: for every valid file whose first line that is neither blank nor a comment
  is an assignment \<^verbatim>\<open>key = value\<close> (or \<^verbatim>\<open>key: value\<close>) with no section header before
  it, whose value holds no percent sign and is not continued on the lines that follow,
  the query of that key (in any case) under the synthetic section \<^verbatim>\<open>__TOP__\<close> prints the
  value and exits with status 0. The header is prepended to the lines read, not to the
  file.
\<close>

theorem first_assignment_under_top:
  assumes "fs path = Text t"
    and "valid_file t"
    and "first_assignment (file_lines t) = Some (k, v, i, rest)"
    and "not_continued i rest"
    and "CHR ''%'' \<notin> set v"
    and "lower K = lower k"
  shows "main [prog, path, top_name, K] fs = Exited (v @ [LF]) [] 0"
proof -
  from assms(2) obtain cfg where cfg: "parse t = Inr cfg"
    by (auto simp: valid_file_def split: sum.splits)
  then obtain stf where stf: "read_lines initial_state (top_header # file_lines t) = Inr stf"
    and ok: "e stf = None" and j: "cfg = join_multiline_values stf"
    by (auto simp: parse_def read_file_def split: sum.splits option.splits)
  let ?st0 = "(with_top initial_state)\<lparr>sectname := Some top_name\<rparr>"
  from stf have "read_lines ?st0 (file_lines t) = Inr stf"
    by (simp add: read_line_top_header)
  from first_assignment_read_lines [OF at_top_start assms(3) this]
  obtain st1 where st1: "settled (lower k) v st1" "collecting (lower k) st1"
    "indent_level st1 = i" "read_lines st1 rest = Inr stf"
    by blast
  from collecting_read_lines [OF st1(1,2) _ st1(4)] assms(4) st1(3) ok
  have "settled (lower k) v stf" by simp
  then obtain d where "c_sections cfg top_name = Some d" "d (lower k) = Some v"
    unfolding j by (auto simp: settled_def join_multiline_values_def)
  with assms(5,6) have "get cfg top_name K [] = Inr v"
    by (simp add: get_stored)
  with main_run [of fs path t cfg prog top_name K] assms(1) cfg show ?thesis by simp
qed

theorem first_assignment_under_top_witness:
  "valid_file ''\<newline># settings\<newline>Foo = 1\<newline>\<newline>[db]\<newline>host = x\<newline>'' \<and>
   first_assignment (file_lines ''\<newline># settings\<newline>Foo = 1\<newline>\<newline>[db]\<newline>host = x\<newline>'') =
     Some (''Foo'', ''1'', 0, [''\<newline>'', ''[db]\<newline>'', ''host = x\<newline>'']) \<and>
   not_continued 0 [''\<newline>'', ''[db]\<newline>'', ''host = x\<newline>''] \<and>
   CHR ''%'' \<notin> set ''1'' \<and>
   lower ''foo'' = lower ''Foo'' \<and>
   main [''read_config.py'', ''app.ini'', top_name, ''foo'']
     (\<lambda>p. Text ''\<newline># settings\<newline>Foo = 1\<newline>\<newline>[db]\<newline>host = x\<newline>'') = Exited (''1'' @ [LF]) [] 0"
proof -
  have h: "valid_file ''\<newline># settings\<newline>Foo = 1\<newline>\<newline>[db]\<newline>host = x\<newline>''"
    "first_assignment (file_lines ''\<newline># settings\<newline>Foo = 1\<newline>\<newline>[db]\<newline>host = x\<newline>'') =
       Some (''Foo'', ''1'', 0, [''\<newline>'', ''[db]\<newline>'', ''host = x\<newline>''])"
    "not_continued 0 [''\<newline>'', ''[db]\<newline>'', ''host = x\<newline>'']"
    "lower ''foo'' = lower ''Foo''"
    by code_simp+
  show ?thesis
    using h first_assignment_under_top
      [where fs = "\<lambda>p. Text ''\<newline># settings\<newline>Foo = 1\<newline>\<newline>[db]\<newline>host = x\<newline>''"
         and t = "''\<newline># settings\<newline>Foo = 1\<newline>\<newline>[db]\<newline>host = x\<newline>''"
         and path = "''app.ini''" and prog = "''read_config.py''"
         and k = "''Foo''" and v = "''1''" and i = 0
         and rest = "[''\<newline>'', ''[db]\<newline>'', ''host = x\<newline>'']" and K = "''foo''"]
    by simp
qed

text \<open>
  C4. For every invocation with fewer than three arguments after the script's name, the
  program writes the line \<^verbatim>\<open>Missing arguments\<close> to standard error and nothing to
  standard output, and ends with a status that is not zero.
\<close>

theorem missing_arguments:
  "length argv < 4 \<Longrightarrow>
     main argv fs = Exited [] (''Missing arguments'' @ [LF]) (- 1) \<and>
     stdout_of (main argv fs) = [] \<and> exit_status (main argv fs) \<noteq> 0"
  by (simp add: main_def)

theorem missing_arguments_witness:
  "length [''read_config.py'', ''app.ini''] < 4 \<and>
   main [''read_config.py'', ''app.ini''] (\<lambda>p. NoSuchFile) =
     Exited [] (''Missing arguments'' @ [LF]) (- 1) \<and>
   stdout_of (main [''read_config.py'', ''app.ini''] (\<lambda>p. NoSuchFile)) = [] \<and>
   exit_status (main [''read_config.py'', ''app.ini''] (\<lambda>p. NoSuchFile)) \<noteq> 0"
  using missing_arguments [of "[''read_config.py'', ''app.ini'']" "\<lambda>p. NoSuchFile"] by simp

text \<open>
  C5. As stated (a key assigned twice in one section is accepted and the later value wins)
  the claim fails: \<^verbatim>\<open>ConfigParser()\<close> is strict, and the second assignment raises
  \<^verbatim>\<open>DuplicateOptionError\<close>.
\<close>

theorem last_assignment_wins_counterexample:
  "file_assignments ''[s]\<newline>k = 1\<newline>k = 2\<newline>'' = [(''s'', ''k''), (''s'', ''k'')] \<and>
   \<not> valid_file ''[s]\<newline>k = 1\<newline>k = 2\<newline>'' \<and>
   main [''read_config.py'', ''app.ini'', ''s'', ''k''] (\<lambda>p. Text ''[s]\<newline>k = 1\<newline>k = 2\<newline>'')
     = Uncaught (DuplicateOptionError ''s'' ''k'')"
  by code_simp

text \<open>
  C5, amended: for every file in which the parser reads two assignments to the same key (in
  lower case) of the same section, parsing fails: the program ends with an uncaught
  \<^verbatim>\<open>DuplicateOptionError\<close>, writes nothing to standard output and its status is not zero.
\<close>

theorem repeated_key_is_fatal:
  assumes "fs path = Text t"
    and "\<not> distinct (file_assignments t)"
  shows "(\<exists>s k. main [prog, path, S, K] fs = Uncaught (DuplicateOptionError s k)) \<and>
         stdout_of (main [prog, path, S, K] fs) = [] \<and>
         exit_status (main [prog, path, S, K] fs) \<noteq> 0"
proof -
  from assms(2) obtain s k where
    "read_lines initial_state (top_header # file_lines t) = Inl (DuplicateOptionError s k)"
    using repeated_assignment_raises [of initial_state "top_header # file_lines t"]
    unfolding file_assignments_def by blast
  then have "main [prog, path, S, K] fs = Uncaught (DuplicateOptionError s k)"
    using assms(1) by (simp add: main_def open_file_def read_file_def)
  then show ?thesis by simp
qed

theorem repeated_key_is_fatal_witness:
  "\<not> distinct (file_assignments ''name = a\<newline>[t]\<newline>x = 1\<newline>[DEFAULT]\<newline>y = 2\<newline>Y: 3'') \<and>
   (\<exists>s k. main [''read_config.py'', ''app.ini'', ''t'', ''x'']
      (\<lambda>p. Text ''name = a\<newline>[t]\<newline>x = 1\<newline>[DEFAULT]\<newline>y = 2\<newline>Y: 3'') =
      Uncaught (DuplicateOptionError s k)) \<and>
   stdout_of (main [''read_config.py'', ''app.ini'', ''t'', ''x'']
      (\<lambda>p. Text ''name = a\<newline>[t]\<newline>x = 1\<newline>[DEFAULT]\<newline>y = 2\<newline>Y: 3'')) = [] \<and>
   exit_status (main [''read_config.py'', ''app.ini'', ''t'', ''x'']
      (\<lambda>p. Text ''name = a\<newline>[t]\<newline>x = 1\<newline>[DEFAULT]\<newline>y = 2\<newline>Y: 3'')) \<noteq> 0"
proof -
  have h: "\<not> distinct (file_assignments ''name = a\<newline>[t]\<newline>x = 1\<newline>[DEFAULT]\<newline>y = 2\<newline>Y: 3'')"
    by code_simp
  show ?thesis
    using h repeated_key_is_fatal
      [where fs = "\<lambda>p. Text ''name = a\<newline>[t]\<newline>x = 1\<newline>[DEFAULT]\<newline>y = 2\<newline>Y: 3''"
         and t = "''name = a\<newline>[t]\<newline>x = 1\<newline>[DEFAULT]\<newline>y = 2\<newline>Y: 3''"
         and path = "''app.ini''" and prog = "''read_config.py''" and S = "''t''" and K = "''x''"]
    by simp
qed

text \<open>
  C6. For every invocation with its three arguments, if opening or decoding the file fails,
  or the parser raises on its lines (a duplicate section header, a line that is neither
  header nor option, ...), the exception ends the program: nothing is written to standard
  output, not even the empty line of the fallback, and the status is not zero.
\<close>

theorem failures_are_fatal:
  assumes "4 \<le> length argv"
    and "open_file fs (argv ! 1) = Inl err \<or>
         (\<exists>t. fs (argv ! 1) = Text t \<and> parse t = Inl err)"
  shows "main argv fs = Uncaught err \<and> stdout_of (main argv fs) = [] \<and>
         exit_status (main argv fs) \<noteq> 0"
proof -
  from assms have "main argv fs = Uncaught err"
    by (auto simp: main_def open_file_def parse_def)
  then show ?thesis by simp
qed

theorem failures_are_fatal_witness:
  "4 \<le> length [''read_config.py'', ''app.ini'', ''a'', ''k''] \<and>
   parse ''[a]\<newline>k = v\<newline>[a]\<newline>'' = Inl (DuplicateSectionError ''a'') \<and>
   main [''read_config.py'', ''app.ini'', ''a'', ''k'']
     (\<lambda>p. Text ''[a]\<newline>k = v\<newline>[a]\<newline>'') =
     Uncaught (DuplicateSectionError ''a'') \<and>
   stdout_of (main [''read_config.py'', ''app.ini'', ''a'', ''k'']
     (\<lambda>p. Text ''[a]\<newline>k = v\<newline>[a]\<newline>'')) = [] \<and>
   exit_status (main [''read_config.py'', ''app.ini'', ''a'', ''k'']
     (\<lambda>p. Text ''[a]\<newline>k = v\<newline>[a]\<newline>'')) \<noteq> 0"
proof -
  have "(case parse ''[a]\<newline>k = v\<newline>[a]\<newline>'' of
           Inl err \<Rightarrow> Some err | Inr cfg \<Rightarrow> None) = Some (DuplicateSectionError ''a'')"
    by code_simp
  then have r: "parse ''[a]\<newline>k = v\<newline>[a]\<newline>'' = Inl (DuplicateSectionError ''a'')"
    by (simp split: sum.splits)
  show ?thesis
    using r failures_are_fatal
      [of "[''read_config.py'', ''app.ini'', ''a'', ''k'']"
          "\<lambda>p. Text ''[a]\<newline>k = v\<newline>[a]\<newline>''" "DuplicateSectionError ''a''"]
    by simp
qed

text \<open>
  C7. As stated (for a file that begins with a section header, prepending the synthetic
  header changes no lookup for any section and key) the claim fails: the synthetic section
  exists, so a query under \<^verbatim>\<open>__TOP__\<close> no longer takes the fallback of a missing section
  but finds the keys of \<^verbatim>\<open>[DEFAULT]\<close>.
\<close>

theorem synthetic_section_unused_counterexample:
  "begins_with_header (file_lines ''[DEFAULT]\<newline>k = v\<newline>'') \<and>
   lookup (file_lines ''[DEFAULT]\<newline>k = v\<newline>'') ''__TOP__'' ''k'' = Inr [] \<and>
   lookup (top_header # file_lines ''[DEFAULT]\<newline>k = v\<newline>'') ''__TOP__'' ''k'' = Inr ''v'' \<and>
   main [''read_config.py'', ''app.ini'', ''__TOP__'', ''k''] (\<lambda>p. Text ''[DEFAULT]\<newline>k = v\<newline>'') =
     Exited ''v\<newline>'' [] 0"
  by code_simp

text \<open>
  C7, amended: for every file whose first line that is neither blank nor a comment is a
  section header, and that has no header \<^verbatim>\<open>[__TOP__]\<close> of its own, the synthetic section
  is present and empty, and for every section other than \<^verbatim>\<open>__TOP__\<close> and every key the
  lookup behind the synthetic header is the lookup in the file as it is: the same value,
  the same fallback or the same exception, which is what the program prints or ends with.
\<close>

theorem synthetic_section_unused:
  assumes "fs path = Text t"
    and "begins_with_header (file_lines t)"
    and "no_top_header (file_lines t)"
    and "S \<noteq> top_name"
  shows "lookup (top_header # file_lines t) S K = lookup (file_lines t) S K \<and>
         main [prog, path, S, K] fs = outcome_of (lookup (file_lines t) S K) \<and>
         (valid_file t \<longrightarrow> section_present t top_name \<and> stored_value t top_name k = None)"
proof -
  note rf = read_file_top_header [OF assms(2,3)]
  have l: "lookup (top_header # file_lines t) S K = lookup (file_lines t) S K"
    unfolding lookup_def rf using assms(4)
    by (cases "read_file (file_lines t)") (simp_all add: get_other_section)
  have m: "main [prog, path, S, K] fs = outcome_of (lookup (file_lines t) S K)"
    using main_lookup [of fs path t prog S K] assms(1) l by simp
  have e: "valid_file t \<longrightarrow> section_present t top_name \<and> stored_value t top_name k = None"
    unfolding valid_file_def section_present_def stored_value_def parse_def rf
    by (cases "read_file (file_lines t)") simp_all
  from l m e show ?thesis by blast
qed

theorem synthetic_section_unused_witness:
  "begins_with_header (file_lines ''[db]\<newline>host = localhost\<newline>port = 5432'') \<and>
   no_top_header (file_lines ''[db]\<newline>host = localhost\<newline>port = 5432'') \<and>
   ''db'' \<noteq> top_name \<and>
   valid_file ''[db]\<newline>host = localhost\<newline>port = 5432'' \<and>
   lookup (top_header # file_lines ''[db]\<newline>host = localhost\<newline>port = 5432'') ''db'' ''host'' =
     lookup (file_lines ''[db]\<newline>host = localhost\<newline>port = 5432'') ''db'' ''host'' \<and>
   main [''read_config.py'', ''app.ini'', ''db'', ''host'']
     (\<lambda>p. Text ''[db]\<newline>host = localhost\<newline>port = 5432'') =
     outcome_of (lookup (file_lines ''[db]\<newline>host = localhost\<newline>port = 5432'') ''db'' ''host'') \<and>
   section_present ''[db]\<newline>host = localhost\<newline>port = 5432'' top_name \<and>
   stored_value ''[db]\<newline>host = localhost\<newline>port = 5432'' top_name ''host'' = None"
proof -
  have h: "begins_with_header (file_lines ''[db]\<newline>host = localhost\<newline>port = 5432'')"
    "no_top_header (file_lines ''[db]\<newline>host = localhost\<newline>port = 5432'')"
    "''db'' \<noteq> top_name"
    "valid_file ''[db]\<newline>host = localhost\<newline>port = 5432''"
    by code_simp+
  show ?thesis
    using h synthetic_section_unused
      [where fs = "\<lambda>p. Text ''[db]\<newline>host = localhost\<newline>port = 5432''"
         and t = "''[db]\<newline>host = localhost\<newline>port = 5432''"
         and path = "''app.ini''" and prog = "''read_config.py''"
         and S = "''db''" and K = "''host''" and k = "''host''"]
    by simp
qed

text \<open>
  C8. Keys are matched without regard to case, on every lookup: the parser stores every key
  in lower case, and the key given as argument is put in lower case before it is looked
  up, so two keys that differ in case only give the same run. The section given as
  argument must be, character for character, a section the parser stored: any other name
  but \<^verbatim>\<open>DEFAULT\<close> gives the empty line. For the file \<^verbatim>\<open>[db] Host = localhost\<close> the
  key \<^verbatim>\<open>HOST\<close> finds the value and the section \<^verbatim>\<open>DB\<close> does not.
\<close>

theorem key_case_folded_section_exact:
  "(lower K = lower K' \<longrightarrow> main [prog, path, S, K] fs = main [prog, path, S, K'] fs) \<and>
   (stored_value t S k = Some v \<longrightarrow> lower k = k) \<and>
   (fs path = Text t \<and> valid_file t \<and> \<not> section_present t S \<and> S \<noteq> default_section \<longrightarrow>
      main [prog, path, S, K] fs = Exited [LF] [] 0) \<and>
   main [''read_config.py'', ''app.ini'', ''db'', ''HOST'']
     (\<lambda>p. Text ''[db]\<newline>Host = localhost'') = Exited ''localhost\<newline>'' [] 0 \<and>
   main [''read_config.py'', ''app.ini'', ''DB'', ''host'']
     (\<lambda>p. Text ''[db]\<newline>Host = localhost'') = Exited ''\<newline>'' [] 0"
proof (intro conjI impI)
  assume "lower K = lower K'"
  then have "get cfg S K [] = get cfg S K' []" for cfg
    unfolding get_def by (simp only:)
  then show "main [prog, path, S, K] fs = main [prog, path, S, K'] fs"
    by (simp add: main_def split: sum.splits)
next
  assume sv: "stored_value t S k = Some v"
  then obtain cfg where cfg: "parse t = Inr cfg"
    by (auto simp: stored_value_def split: sum.splits)
  then have "config_keys_lower cfg" unfolding parse_def by (rule read_file_keys_lower)
  with sv cfg show "lower k = k"
    by (auto simp: stored_value_def config_keys_lower_def split: option.splits if_splits)
next
  assume a: "fs path = Text t \<and> valid_file t \<and> \<not> section_present t S \<and> S \<noteq> default_section"
  then obtain cfg where cfg: "parse t = Inr cfg"
    by (auto simp: valid_file_def split: sum.splits)
  with a have "get cfg S K [] = Inr []"
    by (simp add: get_def unify_values_def section_present_def)
  with main_run [of fs path t cfg prog S K] a cfg
  show "main [prog, path, S, K] fs = Exited [LF] [] 0" by simp
next
  show "main [''read_config.py'', ''app.ini'', ''db'', ''HOST'']
     (\<lambda>p. Text ''[db]\<newline>Host = localhost'') = Exited ''localhost\<newline>'' [] 0"
    by code_simp
next
  show "main [''read_config.py'', ''app.ini'', ''DB'', ''host'']
     (\<lambda>p. Text ''[db]\<newline>Host = localhost'') = Exited ''\<newline>'' [] 0"
    by code_simp
qed

theorem key_case_folded_section_exact_witness:
  "lower ''Host'' = lower ''hOST'' \<and>
   main [''read_config.py'', ''app.ini'', ''db'', ''Host''] (\<lambda>p. Text ''[db]\<newline>Host = localhost'') =
   main [''read_config.py'', ''app.ini'', ''db'', ''hOST''] (\<lambda>p. Text ''[db]\<newline>Host = localhost'') \<and>
   stored_value ''[db]\<newline>Host = localhost'' ''db'' ''host'' = Some ''localhost'' \<and>
   lower ''host'' = ''host'' \<and>
   valid_file ''[db]\<newline>Host = localhost'' \<and>
   \<not> section_present ''[db]\<newline>Host = localhost'' ''Db'' \<and>
   ''Db'' \<noteq> default_section \<and>
   main [''read_config.py'', ''app.ini'', ''Db'', ''Host''] (\<lambda>p. Text ''[db]\<newline>Host = localhost'') =
     Exited [LF] [] 0"
proof -
  have h: "lower ''Host'' = lower ''hOST''" "valid_file ''[db]\<newline>Host = localhost''"
    "stored_value ''[db]\<newline>Host = localhost'' ''db'' ''host'' = Some ''localhost''"
    "\<not> section_present ''[db]\<newline>Host = localhost'' ''Db''" "''Db'' \<noteq> default_section"
    by code_simp+
  show ?thesis
    using h key_case_folded_section_exact
      [where K = "''Host''" and K' = "''hOST''" and prog = "''read_config.py''"
         and path = "''app.ini''" and S = "''db''" and k = "''host''" and v = "''localhost''"
         and fs = "\<lambda>p. Text ''[db]\<newline>Host = localhost''" and t = "''[db]\<newline>Host = localhost''"]
      key_case_folded_section_exact
      [where K = "''Host''" and K' = "''hOST''" and prog = "''read_config.py''"
         and path = "''app.ini''" and S = "''Db''" and k = "''host''" and v = "''localhost''"
         and fs = "\<lambda>p. Text ''[db]\<newline>Host = localhost''" and t = "''[db]\<newline>Host = localhost''"]
    by blast
qed

text \<open>
  C9. There are well-formed files with a percent sign in a stored value for which the
  program does not print the stored text: \<^verbatim>\<open>%(name)s\<close> is replaced by the value of the
  key \<^verbatim>\<open>name\<close>, and a percent sign followed by neither \<^verbatim>\<open>%\<close> nor \<^verbatim>\<open>(\<close> raises
  \<^verbatim>\<open>InterpolationSyntaxError\<close>, which ends the program without output.
\<close>

theorem interpolation_applied:
  "valid_file ''[s]\<newline>name = World\<newline>greeting = Hello %(name)s\<newline>'' \<and>
   stored_value ''[s]\<newline>name = World\<newline>greeting = Hello %(name)s\<newline>'' ''s'' ''greeting'' =
     Some ''Hello %(name)s'' \<and>
   main [''read_config.py'', ''app.ini'', ''s'', ''greeting'']
     (\<lambda>p. Text ''[s]\<newline>name = World\<newline>greeting = Hello %(name)s\<newline>'') =
     Exited ''Hello World\<newline>'' [] 0 \<and>
   valid_file ''[shop]\<newline>rate = 5% off\<newline>'' \<and>
   stored_value ''[shop]\<newline>rate = 5% off\<newline>'' ''shop'' ''rate'' = Some ''5% off'' \<and>
   main [''read_config.py'', ''app.ini'', ''shop'', ''rate'']
     (\<lambda>p. Text ''[shop]\<newline>rate = 5% off\<newline>'') = Uncaught InterpolationSyntaxError \<and>
   stdout_of (main [''read_config.py'', ''app.ini'', ''shop'', ''rate'']
     (\<lambda>p. Text ''[shop]\<newline>rate = 5% off\<newline>'')) = [] \<and>
   exit_status (main [''read_config.py'', ''app.ini'', ''shop'', ''rate'']
     (\<lambda>p. Text ''[shop]\<newline>rate = 5% off\<newline>'')) \<noteq> 0"
  by code_simp

end
